theory Spec2Isabelle
  imports Complex_Main "HOL-Library.AList"
begin

section \<open>Python text primitives used by the scraper\<close>

text \<open>
  Python strings are modelled as \<^typ>\<open>string\<close>, restricted to ASCII text. Integers are
  \<^typ>\<open>int\<close>. The file system is a map from paths to file contents, and text written
  with a line feed is stored with a line feed. The one file operation that the program
  guards with a \<^verbatim>\<open>try\<close> is the write of a row to the temporary CSV in the loop: this
  write may raise, as set out with the world below. Every other file operation of the model
  succeeds (there is no disk, permission or encoding fault there): an error in one of them
  is caught nowhere and ends the program.
\<close>

definition is_space :: "char \<Rightarrow> bool" where
  "is_space c = (c \<in> set [CHR 0x09, CHR 0x0A, CHR 0x0B, CHR 0x0C, CHR 0x0D,
                             CHR 0x1C, CHR 0x1D, CHR 0x1E, CHR 0x1F, CHR 0x20])"

definition py_strip :: "string \<Rightarrow> string" where
  "py_strip s = rev (dropWhile is_space (rev (dropWhile is_space s)))"

definition lower_char :: "char \<Rightarrow> char" where
  "lower_char c =
     (if 65 \<le> (of_char c :: nat) \<and> (of_char c :: nat) \<le> 90
      then char_of ((of_char c :: nat) + 32) else c)"

definition py_lower :: "string \<Rightarrow> string" where
  "py_lower s = map lower_char s"

primrec startswith :: "string \<Rightarrow> string \<Rightarrow> bool" where
  "startswith s [] = True"
| "startswith s (p # ps) = (case s of [] \<Rightarrow> False | c # cs \<Rightarrow> c = p \<and> startswith cs ps)"

text \<open>\<open>py_in sub s\<close> is Python's \<^verbatim>\<open>sub in s\<close> on strings.\<close>

primrec py_in :: "string \<Rightarrow> string \<Rightarrow> bool" where
  "py_in sub [] = (sub = [])"
| "py_in sub (c # cs) = (startswith (c # cs) sub \<or> py_in sub cs)"

definition digit_char :: "nat \<Rightarrow> char" where
  "digit_char d = char_of (48 + d)"

fun str_nat :: "nat \<Rightarrow> string" where
  "str_nat n = (if n < 10 then [digit_char n] else str_nat (n div 10) @ [digit_char (n mod 10)])"

declare str_nat.simps [simp del]

text \<open>\<^verbatim>\<open>str(n)\<close> for an integer.\<close>

definition py_str :: "int \<Rightarrow> string" where
  "py_str i = (if i < 0 then CHR ''-'' # str_nat (nat (- i)) else str_nat (nat i))"

definition is_digit :: "char \<Rightarrow> bool" where
  "is_digit c = (48 \<le> (of_char c :: nat) \<and> (of_char c :: nat) \<le> 57)"

definition digit_val :: "char \<Rightarrow> int" where
  "digit_val c = int (of_char c) - 48"

text \<open>
  The digits of a decimal literal as \<^verbatim>\<open>int()\<close> accepts them: at least one digit, and a
  single underscore only between two digits.
\<close>

fun digits_rest :: "int \<Rightarrow> string \<Rightarrow> int option" where
  "digits_rest acc [] = Some acc"
| "digits_rest acc [c] = (if is_digit c then Some (10 * acc + digit_val c) else None)"
| "digits_rest acc (c # d # r) =
     (if is_digit c then digits_rest (10 * acc + digit_val c) (d # r)
      else if c = CHR ''_'' \<and> is_digit d then digits_rest (10 * acc + digit_val d) r
      else None)"

definition parse_digits :: "string \<Rightarrow> int option" where
  "parse_digits s =
     (case s of [] \<Rightarrow> None
      | c # r \<Rightarrow> if is_digit c then digits_rest (digit_val c) r else None)"

text \<open>
  \<^verbatim>\<open>int(s)\<close> on a string: \<open>None\<close> is the \<^verbatim>\<open>ValueError\<close>. Surrounding white space
  and one sign are accepted. (An interpreter that refuses literals of several thousand
  digits raises there as well; the model parses them.)
\<close>

definition py_int :: "string \<Rightarrow> int option" where
  "py_int s =
     (case py_strip s of [] \<Rightarrow> None
      | c # r \<Rightarrow>
          if c = CHR ''-'' then map_option uminus (parse_digits r)
          else if c = CHR ''+'' then parse_digits r
          else parse_digits (c # r))"

text \<open>\<^verbatim>\<open>s.rsplit('.', 1)[0]\<close>: the text before the last dot, or all of \<open>s\<close> without one.\<close>

definition rsplit_dot_head :: "string \<Rightarrow> string" where
  "rsplit_dot_head s =
     (if CHR ''.'' \<in> set s then rev (tl (dropWhile (\<lambda>c. c \<noteq> CHR ''.'') (rev s))) else s)"

text \<open>\<^verbatim>\<open>sep.join(xs)\<close>.\<close>

fun py_join :: "string \<Rightarrow> string list \<Rightarrow> string" where
  "py_join sep [] = []"
| "py_join sep [x] = x"
| "py_join sep (x # y # ys) = x @ sep @ py_join sep (y # ys)"

section \<open>Checkpoint files\<close>

type_synonym files = "string \<rightharpoonup> string"

definition get_progress_file :: "string \<Rightarrow> string" where
  "get_progress_file output_file = rsplit_dot_head output_file @ ''_progress.txt''"

definition get_temp_csv :: "string \<Rightarrow> string" where
  "get_temp_csv output_file = rsplit_dot_head output_file @ ''_temp.csv''"

definition save_progress :: "string \<Rightarrow> int \<Rightarrow> files \<Rightarrow> files" where
  "save_progress output_file position fs = fs(get_progress_file output_file \<mapsto> py_str position)"

text \<open>
  \<open>load_progress\<close>: the bare \<^verbatim>\<open>except\<close> turns every failure of the read and of the
  parse into \<open>None\<close>.
\<close>

definition load_progress :: "string \<Rightarrow> files \<Rightarrow> int option" where
  "load_progress output_file fs =
     (case fs (get_progress_file output_file) of
        None \<Rightarrow> None
      | Some content \<Rightarrow> py_int (py_strip content))"

section \<open>Tabular files\<close>

datatype scalar = SStr string | SInt int

definition truthy :: "scalar \<Rightarrow> bool" where
  "truthy v = (case v of SStr s \<Rightarrow> s \<noteq> [] | SInt n \<Rightarrow> n \<noteq> 0)"

definition str_scalar :: "scalar \<Rightarrow> string" where
  "str_scalar v = (case v of SStr s \<Rightarrow> s | SInt n \<Rightarrow> py_str n)"

text \<open>A Python dict with string keys, in insertion order.\<close>

type_synonym pydict = "(string \<times> scalar) list"

definition fieldnames :: "string list" where
  "fieldnames =
     [''Position'', ''Const'', ''Created'', ''Modified'', ''Description'',
      ''Title'', ''URL'', ''Title Type'', ''IMDb Rating'', ''Runtime (mins)'',
      ''Year'', ''Genres'', ''Num Votes'', ''Release Date'', ''Directors'',
      ''Your Rating'', ''Date Rated'']"

text \<open>
  The \<^verbatim>\<open>csv\<close> writer in its default dialect: a field holding a comma, a double quote,
  a carriage return or a line feed is quoted, with its quotes doubled; fields are joined
  by commas and the row ends with carriage return and line feed. (Rows of this program
  have 17 fields; the writer's special form for a row of one empty field is left out.)
\<close>

definition csv_field :: "string \<Rightarrow> string" where
  "csv_field f =
     (if (\<exists>c \<in> set f. c \<in> set [CHR '','', CHR 0x22, CHR 0x0D, CHR 0x0A])
      then [CHR 0x22] @ concat (map (\<lambda>c. if c = CHR 0x22 then [c, c] else [c]) f) @ [CHR 0x22]
      else f)"

definition csv_line :: "string list \<Rightarrow> string" where
  "csv_line fields = py_join '','' (map csv_field fields) @ [CHR 0x0D, CHR 0x0A]"

text \<open>\<^verbatim>\<open>DictWriter._dict_to_list\<close>: a missing key is written as the empty string.\<close>

definition dict_to_list :: "pydict \<Rightarrow> string list" where
  "dict_to_list row =
     map (\<lambda>k. case map_of row k of None \<Rightarrow> [] | Some v \<Rightarrow> str_scalar v) fieldnames"

definition read_or_empty :: "files \<Rightarrow> string \<Rightarrow> string" where
  "read_or_empty fs path = (case fs path of None \<Rightarrow> [] | Some old \<Rightarrow> old)"

text \<open>
  \<open>append_to_csv\<close>: mode \<^verbatim>\<open>'w'\<close> truncates, mode \<^verbatim>\<open>'a'\<close> appends (creating the
  file); the row is written in both modes.
\<close>

definition append_to_csv :: "string \<Rightarrow> pydict \<Rightarrow> bool \<Rightarrow> files \<Rightarrow> files" where
  "append_to_csv output_file row write_header fs =
     (if write_header
      then fs(output_file \<mapsto> csv_line fieldnames @ csv_line (dict_to_list row))
      else fs(output_file \<mapsto> read_or_empty fs output_file @ csv_line (dict_to_list row)))"

section \<open>Failure sinks\<close>

definition failed_file_of :: "string \<Rightarrow> string" where
  "failed_file_of output_file = rsplit_dot_head output_file @ ''_failed.txt''"

definition failed_list_file_of :: "string \<Rightarrow> string" where
  "failed_list_file_of output_file = rsplit_dot_head output_file @ ''_failed_list.txt''"

definition failed_header :: string where
  "failed_header = ''FAILED TITLES\<newline>'' @ replicate 80 CHR ''='' @ ''\<newline>\<newline>''"

definition failure_block :: "int \<Rightarrow> string \<Rightarrow> string \<Rightarrow> string" where
  "failure_block position title_text error_text =
     ''Position: '' @ py_str position @ ''\<newline>'' @
     ''Title: '' @ title_text @ ''\<newline>'' @
     ''Error: '' @ error_text @ ''\<newline>'' @
     replicate 80 CHR ''-'' @ ''\<newline>''"

definition append_failure :: "string \<Rightarrow> int \<Rightarrow> string \<Rightarrow> string \<Rightarrow> files \<Rightarrow> files" where
  "append_failure output_file position title_text error_text fs =
     (let failed_file = failed_file_of output_file;
          failed_list_file = failed_list_file_of output_file;
          fs1 = (case fs failed_file of
                   Some old \<Rightarrow> fs(failed_file \<mapsto> old @ failure_block position title_text error_text)
                 | None \<Rightarrow> fs(failed_file \<mapsto>
                              failed_header @ failure_block position title_text error_text))
      in fs1(failed_list_file \<mapsto> read_or_empty fs1 failed_list_file @ title_text @ ''\<newline>''))"

section \<open>The metadata entity and its extraction\<close>

text \<open>
  The entity returned by the lookup library, as a record with optional fields (a field that
  is \<open>None\<close> is a key absent from the entity). Scalar fields hold a text or an integer
  (a rating is carried as its printed text); the list fields may hold a list of texts, or
  a scalar where the provider did not send a list.
\<close>

datatype pyval = PScalar scalar | PList "string list"

record movie =
  movieID :: string
  mv_title :: "scalar option"
  mv_kind :: "scalar option"
  mv_rating :: "scalar option"
  mv_votes :: "scalar option"
  mv_year :: "scalar option"
  mv_original_air_date :: "scalar option"
  mv_runtimes :: "pyval option"
  mv_genres :: "pyval option"
  mv_creator :: "pyval option"
  mv_director :: "pyval option"

datatype exn = Exn (exn_type: string) (exn_msg: string)

text \<open>\<^verbatim>\<open>show.get(key, '')\<close>.\<close>

definition get_or_empty :: "scalar option \<Rightarrow> scalar" where
  "get_or_empty v = (case v of None \<Rightarrow> SStr [] | Some x \<Rightarrow> x)"

definition truthy_val :: "pyval \<Rightarrow> bool" where
  "truthy_val v = (case v of PScalar x \<Rightarrow> truthy x | PList xs \<Rightarrow> xs \<noteq> [])"

definition quoted_int :: string where
  "quoted_int = [CHR 0x27] @ ''int'' @ [CHR 0x27]"

text \<open>\<^verbatim>\<open>v[0]\<close>.\<close>

definition index0 :: "pyval \<Rightarrow> exn + scalar" where
  "index0 v =
     (case v of
        PList [] \<Rightarrow> Inl (Exn ''IndexError'' ''list index out of range'')
      | PList (x # _) \<Rightarrow> Inr (SStr x)
      | PScalar (SStr []) \<Rightarrow> Inl (Exn ''IndexError'' ''string index out of range'')
      | PScalar (SStr (c # _)) \<Rightarrow> Inr (SStr [c])
      | PScalar (SInt _) \<Rightarrow> Inl (Exn ''TypeError'' (quoted_int @ '' object is not subscriptable'')))"

text \<open>\<^verbatim>\<open>', '.join(v)\<close>: a string is joined character by character.\<close>

definition join_val :: "pyval \<Rightarrow> exn + string" where
  "join_val v =
     (case v of
        PList xs \<Rightarrow> Inr (py_join '', '' xs)
      | PScalar (SStr s) \<Rightarrow> Inr (py_join '', '' (map (\<lambda>c. [c]) s))
      | PScalar (SInt _) \<Rightarrow> Inl (Exn ''TypeError'' ''can only join an iterable''))"

text \<open>\<^verbatim>\<open>', '.join([str(c) for c in v])\<close>.\<close>

definition join_str_val :: "pyval \<Rightarrow> exn + string" where
  "join_str_val v =
     (case v of
        PList xs \<Rightarrow> Inr (py_join '', '' xs)
      | PScalar (SStr s) \<Rightarrow> Inr (py_join '', '' (map (\<lambda>c. [c]) s))
      | PScalar (SInt _) \<Rightarrow> Inl (Exn ''TypeError'' (quoted_int @ '' object is not iterable'')))"

text \<open>
  \<open>extract_show_data\<close>; \<open>now\<close> is the current date as \<^verbatim>\<open>strftime('%Y-%m-%d')\<close> prints
  it. \<open>Inl\<close> is an exception raised on the way.
\<close>

definition extract_show_data :: "string \<Rightarrow> movie \<Rightarrow> exn + pydict" where
  "extract_show_data now show =
     (let imdb_id = ''tt'' @ movieID show;
          title_v = get_or_empty (mv_title show);
          url = ''https://www.imdb.com/title/'' @ imdb_id @ ''/'';
          rating = get_or_empty (mv_rating show);
          votes = get_or_empty (mv_votes show);
          year_v = get_or_empty (mv_year show);
          air_date = get_or_empty (mv_original_air_date show);
          release_date = (if \<not> truthy air_date \<and> truthy year_v
                          then SStr (str_scalar year_v @ ''-01-01'') else air_date)
      in case (case mv_runtimes show of
                 Some v \<Rightarrow> if truthy_val v then index0 v else Inr (SStr [])
               | None \<Rightarrow> Inr (SStr [])) of
           Inl e \<Rightarrow> Inl e
         | Inr runtime \<Rightarrow>
       (case (case mv_genres show of Some v \<Rightarrow> join_val v | None \<Rightarrow> Inr []) of
           Inl e \<Rightarrow> Inl e
         | Inr genres \<Rightarrow>
       (case (case mv_creator show of
                Some v \<Rightarrow> join_str_val v
              | None \<Rightarrow> (case mv_director show of Some v \<Rightarrow> join_str_val v | None \<Rightarrow> Inr [])) of
           Inl e \<Rightarrow> Inl e
         | Inr creators \<Rightarrow>
             Inr [(''Const'', SStr imdb_id),
                  (''Title'', title_v),
                  (''URL'', SStr url),
                  (''Title Type'', SStr ''tvSeries''),
                  (''IMDb Rating'', rating),
                  (''Runtime (mins)'', runtime),
                  (''Year'', year_v),
                  (''Genres'', SStr genres),
                  (''Num Votes'', votes),
                  (''Release Date'', release_date),
                  (''Directors'', SStr creators),
                  (''Created'', SStr now),
                  (''Modified'', SStr now),
                  (''Description'', SStr []),
                  (''Your Rating'', SStr []),
                  (''Date Rated'', SStr [])])))"

text \<open>The library's entity is false in a condition when it has no title.\<close>

definition movie_truthy :: "movie \<Rightarrow> bool" where
  "movie_truthy m = (mv_title m \<noteq> None)"

section \<open>The lookup client and the retry controller\<close>

text \<open>
  What the run does to the outside: lookups, sleeps and the operator prompt are recorded in
  a trace, in the order they happen. Console output is not modelled. The lookup library is
  a pair of operations on a client state \<open>'c\<close>, each of which returns or raises an
  \<^verbatim>\<open>Exception\<close>. A sleep takes its duration in seconds as a real number, which stands for
  the program's float. An interrupt from the keyboard ends the program wherever it is and is
  not part of the model.
\<close>

datatype event = SearchMovie string | Update movie | Sleep real | Input

text \<open>
  What the system does with a write of a row to the temporary CSV: the write goes through,
  or it raises an \<^verbatim>\<open>Exception\<close>. A write that raises has either failed to open the file,
  which is then as it was (\<open>None\<close>), or has opened it and put some text at its end before
  the error (\<open>Some\<close> of that text, possibly empty). The world holds the outcomes of the
  writes to come, in order, as it holds the lines of the standard input; when the list is
  used up the writes go through.
\<close>

datatype write_outcome = Written | Raised exn "string option"

record 'c world =
  files :: files
  client :: 'c
  trace :: "event list"
  stdin :: "string list"
  clock :: string
  csv_writes :: "write_outcome list"

record 'c cinemagoer =
  search_movie :: "'c \<Rightarrow> string \<Rightarrow> (exn + movie list) \<times> 'c"
  update_info :: "'c \<Rightarrow> movie \<Rightarrow> (exn + movie) \<times> 'c"

definition accepted_kind :: "scalar option \<Rightarrow> bool" where
  "accepted_kind k = (k = Some (SStr ''tv series'') \<or> k = Some (SStr ''tv mini series''))"

text \<open>
  The inner loop of \<open>search_tv_show\<close> over the candidates: the accepted entity if any, the
  client state afterwards, and the calls made.
\<close>

fun find_tv_series ::
  "'c cinemagoer \<Rightarrow> movie list \<Rightarrow> 'c \<Rightarrow> movie option \<times> 'c \<times> event list" where
  "find_tv_series ia [] c = (None, c, [])"
| "find_tv_series ia (r # rs) c =
     (case update_info ia c r of
        (Inr r', c') \<Rightarrow>
          if accepted_kind (mv_kind r') then (Some r', c', [Update r])
          else (case find_tv_series ia rs c' of (found, c'', evs) \<Rightarrow> (found, c'', Update r # evs))
      | (Inl e, c') \<Rightarrow>
          (case find_tv_series ia rs c' of (found, c'', evs) \<Rightarrow> (found, c'', Update r # evs)))"

definition clean_error_msg :: "string \<Rightarrow> string" where
  "clean_error_msg error_msg =
     (if startswith error_msg ''{'' then
        (if py_in ''405'' error_msg then ''HTTP 405: Not Allowed''
         else if py_in ''429'' error_msg then ''HTTP 429: Too Many Requests''
         else ''HTTP error'')
      else error_msg)"

definition is_retryable :: "string \<Rightarrow> bool" where
  "is_retryable error_msg =
     (py_in ''405'' error_msg \<or> py_in ''429'' error_msg \<or> py_in ''Too Many Requests'' error_msg)"

text \<open>
  The \<^verbatim>\<open>for attempt in range(max_retries)\<close> loop, from \<open>attempt\<close> on. The result is the
  pair \<^verbatim>\<open>(show_data, error_message)\<close>, the client state afterwards, and the lookups and
  sleeps made, in order.
\<close>

function search_attempts ::
  "'c cinemagoer \<Rightarrow> string \<Rightarrow> int \<Rightarrow> int \<Rightarrow> 'c
     \<Rightarrow> (movie option \<times> string option) \<times> 'c \<times> event list"
where
  "search_attempts ia title_text max_retries attempt c =
     (if attempt < max_retries then
        (case search_movie ia c title_text of
           (Inr found, c') \<Rightarrow>
             (if found = []
              then ((None, Some ''No results found''), c', [SearchMovie title_text])
              else (case find_tv_series ia found c' of
                      (Some r, c'', evs) \<Rightarrow> ((Some r, None), c'', SearchMovie title_text # evs)
                    | (None, c'', evs) \<Rightarrow>
                        ((None, Some ''No TV series found in results''), c'',
                         SearchMovie title_text # evs)))
         | (Inl e, c') \<Rightarrow>
             (if is_retryable (clean_error_msg (exn_msg e)) then
                (if attempt < max_retries - 1
                 then (case search_attempts ia title_text max_retries (attempt + 1) c' of
                         (res, c'', evs) \<Rightarrow>
                           (res, c'',
                            SearchMovie title_text # Sleep (2 ^ nat (attempt + 1)) # evs))
                 else ((None, Some (exn_type e @ '': '' @ clean_error_msg (exn_msg e))), c',
                       [SearchMovie title_text]))
              else ((None, Some (exn_type e @ '': '' @ clean_error_msg (exn_msg e))), c',
                    [SearchMovie title_text])))
      else ((None, Some ''Max retries exceeded''), c, []))"
  by pat_completeness auto
termination
  by (relation "measure (\<lambda>(ia, title_text, max_retries, attempt, c). nat (max_retries - attempt))")
     auto

declare search_attempts.simps [simp del]

definition search_tv_show ::
  "'c cinemagoer \<Rightarrow> string \<Rightarrow> int \<Rightarrow> 'c \<Rightarrow> (movie option \<times> string option) \<times> 'c \<times> event list"
where
  "search_tv_show ia title_text max_retries c = search_attempts ia title_text max_retries 0 c"

section \<open>The run\<close>

record run_state =
  results :: "pydict list"
  failed_count :: int
  success_count :: int

text \<open>The outcome of the next write of a row to the temporary CSV.\<close>

definition next_csv_write :: "'c world \<Rightarrow> write_outcome" where
  "next_csv_write w = (case csv_writes w of [] \<Rightarrow> Written | outcome # rest \<Rightarrow> outcome)"

text \<open>
  \<^verbatim>\<open>append_to_csv(temp_csv, show_data)\<close> as called inside the \<^verbatim>\<open>try\<close>: the exception
  raised, if any, and the world after the call.
\<close>

definition append_to_csv_or_raise :: "string \<Rightarrow> pydict \<Rightarrow> 'c world \<Rightarrow> exn option \<times> 'c world" where
  "append_to_csv_or_raise temp_csv show_data w =
     (case next_csv_write w of
        Written \<Rightarrow>
          (None, w\<lparr>csv_writes := tl (csv_writes w),
                    files := append_to_csv temp_csv show_data False (files w)\<rparr>)
      | Raised e reached \<Rightarrow>
          (Some e,
           w\<lparr>csv_writes := tl (csv_writes w),
             files := (case reached of
                         None \<Rightarrow> files w
                       | Some written \<Rightarrow>
                           (files w)(temp_csv \<mapsto> read_or_empty (files w) temp_csv @ written))\<rparr>))"

text \<open>
  The two routes of an outcome: the failure sinks, or the results and the temporary CSV.
  \<open>record_success\<close> is the body of the \<^verbatim>\<open>try\<close> below the extraction: the row is appended
  to the results, then written to the temporary CSV, then counted. When the write raises,
  the row is already in the results and the count is not made; the exception is returned
  with the state reached.
\<close>

definition record_failure ::
  "string \<Rightarrow> int \<Rightarrow> string \<Rightarrow> string \<Rightarrow> run_state \<times> 'c world \<Rightarrow> run_state \<times> 'c world"
where
  "record_failure output_file position title_text error_msg st =
     (case st of (rs, w) \<Rightarrow>
        (rs\<lparr>failed_count := failed_count rs + 1\<rparr>,
         w\<lparr>files := append_failure output_file position title_text error_msg (files w)\<rparr>))"

definition record_success ::
  "string \<Rightarrow> int \<Rightarrow> pydict \<Rightarrow> run_state \<times> 'c world \<Rightarrow> exn option \<times> run_state \<times> 'c world"
where
  "record_success output_file position extracted st =
     (case st of (rs, w) \<Rightarrow>
        let show_data = AList.update ''Position'' (SInt position) extracted;
            rs1 = rs\<lparr>results := results rs @ [show_data]\<rparr>
        in (case append_to_csv_or_raise (get_temp_csv output_file) show_data w of
              (None, w1) \<Rightarrow> (None, rs1\<lparr>success_count := success_count rs1 + 1\<rparr>, w1)
            | (Some e, w1) \<Rightarrow> (Some e, rs1, w1)))"

text \<open>The message of the \<^verbatim>\<open>except\<close> branch.\<close>

definition extraction_failed :: "exn \<Rightarrow> string" where
  "extraction_failed e = ''Data extraction failed: '' @ exn_type e @ '': '' @ exn_msg e"

text \<open>\<^verbatim>\<open>error if error else 'Not found'\<close>.\<close>

definition error_or_not_found :: "string option \<Rightarrow> string" where
  "error_or_not_found error =
     (case error of Some msg \<Rightarrow> if msg \<noteq> [] then msg else ''Not found'' | None \<Rightarrow> ''Not found'')"

text \<open>The \<^verbatim>\<open>if show: ... else: ...\<close> of the loop body, with its \<^verbatim>\<open>try\<close>.\<close>

definition route_outcome ::
  "string \<Rightarrow> int \<Rightarrow> string \<Rightarrow> movie option \<Rightarrow> string option \<Rightarrow> run_state \<times> 'c world
     \<Rightarrow> run_state \<times> 'c world"
where
  "route_outcome output_file position title_text show error st =
     (case show of
        Some m \<Rightarrow>
          if movie_truthy m then
            (case extract_show_data (clock (snd st)) m of
               Inr extracted \<Rightarrow>
                 (case record_success output_file position extracted st of
                    (None, st1) \<Rightarrow> st1
                  | (Some e, st1) \<Rightarrow>
                      record_failure output_file position title_text (extraction_failed e) st1)
             | Inl e \<Rightarrow>
                 record_failure output_file position title_text (extraction_failed e) st)
          else record_failure output_file position title_text (error_or_not_found error) st
      | None \<Rightarrow> record_failure output_file position title_text (error_or_not_found error) st)"

text \<open>\<open>Save progress every 10 titles\<close>.\<close>

definition save_every_10 :: "string \<Rightarrow> int \<Rightarrow> 'c world \<Rightarrow> 'c world" where
  "save_every_10 output_file position w =
     (if position mod 10 = 0
      then w\<lparr>files := save_progress output_file position (files w)\<rparr> else w)"

text \<open>\<open>Optional delay between requests\<close>; \<open>n\<close> is \<^verbatim>\<open>len(tv_shows)\<close>.\<close>

definition delay_between :: "real \<Rightarrow> int \<Rightarrow> int \<Rightarrow> 'c world \<Rightarrow> 'c world" where
  "delay_between delay position n w =
     (if delay > 0 \<and> position < n then w\<lparr>trace := trace w @ [Sleep delay]\<rparr> else w)"

text \<open>
  One pass of the body of the \<^verbatim>\<open>for position, title in enumerate(tv_shows, start=1)\<close>
  loop, below its \<^verbatim>\<open>continue\<close>.
\<close>

definition process_item ::
  "'c cinemagoer \<Rightarrow> string \<Rightarrow> real \<Rightarrow> int \<Rightarrow> int \<times> string \<Rightarrow> run_state \<times> 'c world
     \<Rightarrow> run_state \<times> 'c world"
where
  "process_item ia output_file delay n pt st =
     (case pt of (position, title_text) \<Rightarrow>
      case st of (rs, w) \<Rightarrow>
      case search_tv_show ia title_text 3 (client w) of ((show, error), c', evs) \<Rightarrow>
      case route_outcome output_file position title_text show error
             (rs, w\<lparr>client := c', trace := trace w @ evs\<rparr>) of (rs2, w2) \<Rightarrow>
        (rs2, delay_between delay position n (save_every_10 output_file position w2)))"

text \<open>The loop with its skip of the positions below \<open>start_position\<close>.\<close>

fun run_loop ::
  "'c cinemagoer \<Rightarrow> string \<Rightarrow> real \<Rightarrow> int \<Rightarrow> int \<Rightarrow> (int \<times> string) list
     \<Rightarrow> run_state \<times> 'c world \<Rightarrow> run_state \<times> 'c world"
where
  "run_loop ia output_file delay n start_position [] st = st"
| "run_loop ia output_file delay n start_position (pt # pts) st =
     run_loop ia output_file delay n start_position pts
       (if fst pt < start_position then st else process_item ia output_file delay n pt st)"

text \<open>\<^verbatim>\<open>enumerate(xs, start=i)\<close>.\<close>

fun py_enumerate :: "int \<Rightarrow> 'a list \<Rightarrow> (int \<times> 'a) list" where
  "py_enumerate i [] = []"
| "py_enumerate i (x # xs) = (i, x) # py_enumerate (i + 1) xs"

text \<open>
  The lines of a text file as iteration over it yields them, each with its line end.
  A carriage return ends a line as a line feed does; the caller strips every line and
  drops the blank ones, so that the translation of line ends on reading is covered.
\<close>

primrec lines_from :: "string \<Rightarrow> string \<Rightarrow> string list" where
  "lines_from cur [] = (if cur = [] then [] else [cur])"
| "lines_from cur (c # cs) =
     (if c = CHR 0x0A \<or> c = CHR 0x0D then (cur @ [c]) # lines_from [] cs
      else lines_from (cur @ [c]) cs)"

definition read_titles :: "string \<Rightarrow> string list" where
  "read_titles content = filter (\<lambda>l. l \<noteq> []) (map py_strip (lines_from [] content))"

datatype fatal = FileNotFoundError | EOFError

text \<open>
  The resume check: the start position and the world after the operator's decision. The
  operator's answer is the next line of the standard input; \<open>Inl EOFError\<close> is a prompt
  that gets no line.
\<close>

definition check_resume :: "string \<Rightarrow> 'c world \<Rightarrow> fatal + (int \<times> 'c world)" where
  "check_resume output_file w =
     (let temp_csv = get_temp_csv output_file
      in case load_progress output_file (files w) of
           None \<Rightarrow> Inr (1, w)
         | Some last_position \<Rightarrow>
             if last_position \<noteq> 0 \<and> files w temp_csv \<noteq> None then
               (case stdin w of
                  [] \<Rightarrow> Inl EOFError
                | line # rest \<Rightarrow>
                    if py_lower (py_strip line) = ''y''
                    then Inr (last_position + 1, w\<lparr>stdin := rest, trace := trace w @ [Input]\<rparr>)
                    else Inr (1, w\<lparr>stdin := rest, trace := trace w @ [Input],
                                   files := ((files w)(temp_csv := None))
                                              (get_progress_file output_file := None)\<rparr>))
             else Inr (1, w))"

text \<open>\<open>Initialize temp CSV if starting fresh\<close>.\<close>

definition init_temp_csv :: "string \<Rightarrow> int \<Rightarrow> 'c world \<Rightarrow> 'c world" where
  "init_temp_csv output_file start_position w =
     (if start_position = 1
      then w\<lparr>files := append_to_csv (get_temp_csv output_file) [] True (files w)\<rparr>
      else w)"

text \<open>The final write and the removal of the two checkpoint files.\<close>

definition finalize :: "string \<Rightarrow> pydict list \<Rightarrow> files \<Rightarrow> files" where
  "finalize output_file rows fs =
     (let fs1 = fs(output_file \<mapsto>
                   csv_line fieldnames @ concat (map (\<lambda>row. csv_line (dict_to_list row)) rows));
          fs2 = fs1(get_temp_csv output_file := None)
      in fs2(get_progress_file output_file := None))"

definition process_tv_list ::
  "'c cinemagoer \<Rightarrow> string \<Rightarrow> string \<Rightarrow> real \<Rightarrow> 'c world \<Rightarrow> fatal + (run_state \<times> 'c world)"
where
  "process_tv_list ia input_file output_file delay w =
     (case files w input_file of
        None \<Rightarrow> Inl FileNotFoundError
      | Some content \<Rightarrow>
          let tv_shows = read_titles content
          in (case check_resume output_file w of
                Inl f \<Rightarrow> Inl f
              | Inr (start_position, w1) \<Rightarrow>
                  (case run_loop ia output_file delay (int (length tv_shows)) start_position
                          (py_enumerate 1 tv_shows)
                          (\<lparr>results = [], failed_count = 0, success_count = 0\<rparr>,
                           init_temp_csv output_file start_position w1) of
                     (rs, w3) \<Rightarrow>
                       Inr (rs, w3\<lparr>files := finalize output_file (results rs) (files w3)\<rparr>))))"

section \<open>Agreement of two worlds outside one file\<close>

text \<open>
  Two worlds agree except at the path \<open>x\<close> when they differ at most in the content of
  that one file; the write outcomes to come are the same in both. Used to show that a file
  is written and never read back.
\<close>

definition agree_except :: "string \<Rightarrow> 'c world \<Rightarrow> 'c world \<Rightarrow> bool" where
  "agree_except x w w2 =
     (client w2 = client w \<and> trace w2 = trace w \<and> stdin w2 = stdin w \<and> clock w2 = clock w \<and>
      csv_writes w2 = csv_writes w \<and>
      (\<forall>q. q \<noteq> x \<longrightarrow> files w2 q = files w q))"

section \<open>The fetches of a list of candidates\<close>



section \<open>Reading a trace\<close>

text \<open>The durations of the sleeps in a list of events, in order.\<close>

fun sleeps_of :: "event list \<Rightarrow> real list" where
  "sleeps_of [] = []"
| "sleeps_of (Sleep d # evs) = d # sleeps_of evs"
| "sleeps_of (e # evs) = sleeps_of evs"

section \<open>Example data\<close>

definition throttled :: exn where
  "throttled = Exn ''IMDbDataAccessError'' ''{errcode: 429, errmsg: Too Many Requests}''"

definition broken :: exn where
  "broken = Exn ''IMDbParserError'' ''unexpected page layout''"

definition series_a :: movie where
  "series_a = \<lparr>movieID = ''0903747'', mv_title = Some (SStr ''Show A''),
     mv_kind = Some (SStr ''tv series''), mv_rating = Some (SStr ''9.5''),
     mv_votes = Some (SInt 100), mv_year = Some (SInt 2008), mv_original_air_date = None,
     mv_runtimes = Some (PList [''49'']), mv_genres = Some (PList [''Crime'', ''Drama'']),
     mv_creator = None, mv_director = None\<rparr>"

definition film_x :: movie where
  "film_x = series_a\<lparr>movieID := ''0000001'', mv_kind := Some (SStr ''movie'')\<rparr>"

definition bad_entry :: movie where
  "bad_entry = series_a\<lparr>movieID := ''0000000''\<rparr>"

definition scripted :: "nat cinemagoer" where
  "scripted =
     \<lparr>search_movie = (\<lambda>c t.
        if t = ''Show A'' then (Inr [bad_entry, film_x, series_a], c)
        else if t = ''Show B'' then (Inr [], c)
        else if t = ''Show C'' then (if c < 2 then (Inl throttled, c + 1) else (Inr [series_a], c))
        else if t = ''Show D'' then (Inl throttled, c + 1)
        else (Inl broken, c)),
      update_info = (\<lambda>c m. (if movieID m = ''0000000'' then Inl broken else Inr m, c))\<rparr>"

definition fresh_world :: "nat world" where
  "fresh_world =
     \<lparr>files = [''in.txt'' \<mapsto> ''Show A\<newline>Show B\<newline>Show C\<newline>''],
      client = 0, trace = [], stdin = [], clock = ''2024-05-01'', csv_writes = []\<rparr>"

definition zero_marker_world :: "nat world" where
  "zero_marker_world =
     fresh_world\<lparr>files := (files fresh_world)(''out_progress.txt'' \<mapsto> ''0'',
                                              ''out_temp.csv'' \<mapsto> ''junk'')\<rparr>"


definition restart_world :: "nat world" where
  "restart_world =
     \<lparr>files = [''in.txt'' \<mapsto> ''Show A\<newline>Show B\<newline>'',
               ''out_progress.txt'' \<mapsto> ''10'',
               ''out_temp.csv'' \<mapsto> ''old rows'',
               ''out_failed.txt'' \<mapsto> ''old log'',
               ''out_failed_list.txt'' \<mapsto> ''Old Show\<newline>''],
      client = 0, trace = [], stdin = [''n''], clock = ''2024-05-01'', csv_writes = []\<rparr>"

definition resumed_world :: "nat world" where
  "resumed_world =
     \<lparr>files = [''in.txt'' \<mapsto>
                 ''a\<newline>b\<newline>c\<newline>d\<newline>e\<newline>f\<newline>g\<newline>h\<newline>i\<newline>j\<newline>Show A\<newline>Show B\<newline>'',
               ''out_progress.txt'' \<mapsto> ''10'',
               ''out_temp.csv'' \<mapsto> ''earlier rows''],
      client = 0, trace = [], stdin = ['' Y ''], clock = ''2024-05-01'', csv_writes = []\<rparr>"


definition resumed_input :: string where
  "resumed_input =
     ''a\<newline>b\<newline>c\<newline>d\<newline>e\<newline>f\<newline>g\<newline>h\<newline>i\<newline>j\<newline>Show A\<newline>Show B\<newline>''"




definition asked_world :: "nat world" where
  "asked_world = resumed_world\<lparr>stdin := [], trace := [Input]\<rparr>"






section \<open>The outcome of one position\<close>

text \<open>
  What one pass of the loop body has come to. \<open>Stored row\<close>: the row was appended to the
  results and written to the temporary CSV, and a success was counted. \<open>Unstored row
  reached msg\<close>: the row was appended to the results, its write to the temporary CSV raised
  after the text \<open>reached\<close> had got into the file, and a failure was recorded with the
  message \<open>msg\<close>. \<open>Failed msg\<close>: no row, a failure recorded with the message \<open>msg\<close>.
\<close>

datatype outcome = Stored pydict | Unstored pydict string string | Failed string

fun rows_of :: "outcome \<Rightarrow> pydict list" where
  "rows_of (Stored row) = [row]"
| "rows_of (Unstored row reached msg) = [row]"
| "rows_of (Failed msg) = []"

fun succeeded :: "outcome \<Rightarrow> bool" where
  "succeeded (Stored row) = True"
| "succeeded (Unstored row reached msg) = False"
| "succeeded (Failed msg) = False"

fun has_row :: "outcome \<Rightarrow> bool" where
  "has_row (Stored row) = True"
| "has_row (Unstored row reached msg) = True"
| "has_row (Failed msg) = False"

fun stored_text :: "outcome \<Rightarrow> string" where
  "stored_text (Stored row) = csv_line (dict_to_list row)"
| "stored_text (Unstored row reached msg) = reached"
| "stored_text (Failed msg) = []"

fun message_of :: "outcome \<Rightarrow> string" where
  "message_of (Stored row) = []"
| "message_of (Unstored row reached msg) = msg"
| "message_of (Failed msg) = msg"

text \<open>
  The outcomes of the first \<open>k\<close> writes of a row to the temporary CSV in a world whose
  write outcomes to come are \<open>ws\<close>.
\<close>

definition first_writes :: "nat \<Rightarrow> write_outcome list \<Rightarrow> write_outcome list" where
  "first_writes k ws = take k (ws @ replicate k Written)"
section \<open>Paths\<close>

lemma rsplit_dot_head_cases:
  "rsplit_dot_head s = s \<or> (\<exists>ext. s = rsplit_dot_head s @ CHR ''.'' # ext)"
proof (cases "CHR ''.'' \<in> set s")
  case False
  then show ?thesis by (simp add: rsplit_dot_head_def)
next
  case True
  then have "CHR ''.'' \<in> set (rev s)" by simp
  then obtain d r where dr: "dropWhile (\<lambda>c. c \<noteq> CHR ''.'') (rev s) = d # r"
    by (cases "dropWhile (\<lambda>c. c \<noteq> CHR ''.'') (rev s)") (auto simp: dropWhile_eq_Nil_conv)
  then have d: "d = CHR ''.''"
    using hd_dropWhile[of "\<lambda>c. c \<noteq> CHR ''.''" "rev s"] by auto
  have "rev s = takeWhile (\<lambda>c. c \<noteq> CHR ''.'') (rev s) @ d # r"
    using takeWhile_dropWhile_id[of "\<lambda>c. c \<noteq> CHR ''.''" "rev s"] dr by simp
  then have "s = rev r @ CHR ''.'' # rev (takeWhile (\<lambda>c. c \<noteq> CHR ''.'') (rev s))"
    using d by (metis rev_append rev.simps(2) rev_rev_ident append.assoc append_Cons append_Nil)
  moreover have "rsplit_dot_head s = rev r"
    using True dr by (simp add: rsplit_dot_head_def)
  ultimately show ?thesis by auto
qed

lemma output_not_derived:
  assumes "suffix \<noteq> []" "hd suffix \<noteq> CHR ''.''"
  shows "output_file \<noteq> rsplit_dot_head output_file @ suffix"
proof
  assume eq: "output_file = rsplit_dot_head output_file @ suffix"
  from rsplit_dot_head_cases[of output_file] show False
  proof
    assume "rsplit_dot_head output_file = output_file"
    with eq assms show False by (metis append_self_conv)
  next
    assume "\<exists>ext. output_file = rsplit_dot_head output_file @ CHR ''.'' # ext"
    then obtain ext where "output_file = rsplit_dot_head output_file @ CHR ''.'' # ext" by blast
    with eq have "suffix = CHR ''.'' # ext" by (metis same_append_eq)
    with assms show False by simp
  qed
qed

lemma paths_distinct:
  "get_temp_csv out \<noteq> get_progress_file out"
  "get_progress_file out \<noteq> get_temp_csv out"
  "failed_file_of out \<noteq> get_temp_csv out"
  "failed_file_of out \<noteq> get_progress_file out"
  "failed_list_file_of out \<noteq> get_temp_csv out"
  "failed_list_file_of out \<noteq> get_progress_file out"
  "failed_list_file_of out \<noteq> failed_file_of out"
  "failed_file_of out \<noteq> failed_list_file_of out"
  "get_temp_csv out \<noteq> failed_file_of out"
  "get_temp_csv out \<noteq> failed_list_file_of out"
  "get_progress_file out \<noteq> failed_file_of out"
  "get_progress_file out \<noteq> failed_list_file_of out"
  by (simp_all add: get_temp_csv_def get_progress_file_def failed_file_of_def failed_list_file_of_def)

lemma output_distinct:
  "out \<noteq> get_temp_csv out" "out \<noteq> get_progress_file out"
  "out \<noteq> failed_file_of out" "out \<noteq> failed_list_file_of out"
  "get_temp_csv out \<noteq> out" "get_progress_file out \<noteq> out"
  "failed_file_of out \<noteq> out" "failed_list_file_of out \<noteq> out"
  unfolding get_temp_csv_def get_progress_file_def failed_file_of_def failed_list_file_of_def
  using output_not_derived[of "''_temp.csv''" out] output_not_derived[of "''_progress.txt''" out]
    output_not_derived[of "''_failed.txt''" out] output_not_derived[of "''_failed_list.txt''" out]
  by (simp_all add: eq_commute[of _ out])

lemma blank_row: "csv_line (dict_to_list []) = '',,,,,,,,,,,,,,,,'' @ [CHR 0x0D, CHR 0x0A]"
  by (simp add: csv_line_def dict_to_list_def fieldnames_def csv_field_def)

section \<open>File operations and one pass of the loop\<close>

lemma map_of_update_position:
  "map_of (AList.update ''Position'' v d) ''Position'' = Some v"
  by (simp add: update_conv')

text \<open>frame facts of the file operations\<close>

lemma append_to_csv_other: "q \<noteq> path \<Longrightarrow> append_to_csv path row h fs q = fs q"
  by (simp add: append_to_csv_def)

lemma append_to_csv_same:
  "append_to_csv path row False fs path = Some (read_or_empty fs path @ csv_line (dict_to_list row))"
  by (simp add: append_to_csv_def)

lemma append_failure_other:
  "q \<noteq> failed_file_of out \<Longrightarrow> q \<noteq> failed_list_file_of out \<Longrightarrow>
   append_failure out p t msg fs q = fs q"
  by (simp add: append_failure_def Let_def split: option.splits)

lemma append_failure_list:
  "append_failure out p t msg fs (failed_list_file_of out) =
     Some (read_or_empty fs (failed_list_file_of out) @ t @ ''\<newline>'')"
  by (simp add: append_failure_def Let_def read_or_empty_def paths_distinct split: option.splits)

lemma append_failure_log:
  "append_failure out p t msg fs (failed_file_of out) =
     Some ((case fs (failed_file_of out) of None \<Rightarrow> failed_header | Some old \<Rightarrow> old)
           @ failure_block p t msg)"
  by (simp add: append_failure_def Let_def paths_distinct split: option.splits)

lemma save_progress_other: "q \<noteq> get_progress_file out \<Longrightarrow> save_progress out p fs q = fs q"
  by (simp add: save_progress_def)

lemma save_progress_same: "save_progress out p fs (get_progress_file out) = Some (py_str p)"
  by (simp add: save_progress_def)

text \<open>route_outcome: the three ways through the branch\<close>

lemma route_outcome_cases:
  "(\<exists>row. map_of row ''Position'' = Some (SInt p) \<and> next_csv_write w = Written \<and>
      route_outcome out p t sh err (rs, w) =
        (rs\<lparr>results := results rs @ [row], success_count := success_count rs + 1\<rparr>,
         w\<lparr>csv_writes := tl (csv_writes w),
           files := append_to_csv (get_temp_csv out) row False (files w)\<rparr>)) \<or>
   (\<exists>row e reached. map_of row ''Position'' = Some (SInt p) \<and>
      next_csv_write w = Raised e reached \<and>
      route_outcome out p t sh err (rs, w) =
        record_failure out p t (extraction_failed e)
          (rs\<lparr>results := results rs @ [row]\<rparr>,
           w\<lparr>csv_writes := tl (csv_writes w),
             files := (case reached of
                         None \<Rightarrow> files w
                       | Some written \<Rightarrow>
                           (files w)(get_temp_csv out \<mapsto>
                              read_or_empty (files w) (get_temp_csv out) @ written))\<rparr>)) \<or>
   (\<exists>msg. route_outcome out p t sh err (rs, w) = record_failure out p t msg (rs, w))"
proof (cases sh)
  case None
  then show ?thesis
    by (intro disjI2[OF disjI2] exI[of _ "error_or_not_found err"]) (simp add: route_outcome_def)
next
  case (Some m)
  show ?thesis
  proof (cases "movie_truthy m")
    case False
    with Some show ?thesis
      by (intro disjI2[OF disjI2] exI[of _ "error_or_not_found err"]) (simp add: route_outcome_def)
  next
    case True
    show ?thesis
    proof (cases "extract_show_data (clock w) m")
      case (Inl e)
      with Some True show ?thesis
        by (intro disjI2[OF disjI2] exI[of _ "extraction_failed e"]) (simp add: route_outcome_def)
    next
      case (Inr d)
      show ?thesis
      proof (cases "next_csv_write w")
        case Written
        with Some True Inr show ?thesis
          by (intro disjI1 exI[of _ "AList.update ''Position'' (SInt p) d"])
             (simp add: route_outcome_def record_success_def append_to_csv_or_raise_def Let_def
                map_of_update_position)
      next
        case (Raised e reached)
        with Some True Inr show ?thesis
          apply (intro disjI2[OF disjI1])
          apply (intro exI[of _ "AList.update ''Position'' (SInt p) d"] exI[of _ e]
                   exI[of _ reached])
          apply (simp add: route_outcome_def record_success_def append_to_csv_or_raise_def Let_def
                   map_of_update_position)
          done
      qed
    qed
  qed
qed

lemma process_item_unfold:
  "process_item ia out delay n (p, t) (rs, w) =
     (case search_tv_show ia t 3 (client w) of ((sh, err), c', evs) \<Rightarrow>
      case route_outcome out p t sh err (rs, w\<lparr>client := c', trace := trace w @ evs\<rparr>) of
        (rs2, w2) \<Rightarrow> (rs2, delay_between delay p n (save_every_10 out p w2)))"
  by (simp add: process_item_def)

lemma files_delay_between [simp]: "files (delay_between d p n w) = files w"
  by (simp add: delay_between_def)

lemma files_save_every_10:
  "files (save_every_10 out p w) = (if p mod 10 = 0 then save_progress out p (files w) else files w)"
  by (simp add: save_every_10_def)

text \<open>One step: the new state in terms of the old, for each of the three outcomes.\<close>

lemma csv_writes_delay_between [simp]: "csv_writes (delay_between d p n w) = csv_writes w"
  by (simp add: delay_between_def)

lemma csv_writes_save_every_10 [simp]: "csv_writes (save_every_10 out p w) = csv_writes w"
  by (simp add: save_every_10_def)

lemma process_item_outcome:
  "(\<exists>row w'. process_item ia out delay n (p, t) (rs, w) =
        (rs\<lparr>results := results rs @ [row], success_count := success_count rs + 1\<rparr>, w') \<and>
      map_of row ''Position'' = Some (SInt p) \<and> next_csv_write w = Written \<and>
      csv_writes w' = tl (csv_writes w) \<and>
      files w' = (if p mod 10 = 0
                  then save_progress out p (append_to_csv (get_temp_csv out) row False (files w))
                  else append_to_csv (get_temp_csv out) row False (files w))) \<or>
   (\<exists>row e reached w'. process_item ia out delay n (p, t) (rs, w) =
        (rs\<lparr>results := results rs @ [row], failed_count := failed_count rs + 1\<rparr>, w') \<and>
      map_of row ''Position'' = Some (SInt p) \<and> next_csv_write w = Raised e reached \<and>
      csv_writes w' = tl (csv_writes w) \<and>
      files w' =
        (if p mod 10 = 0
         then save_progress out p (append_failure out p t (extraction_failed e)
                (case reached of
                   None \<Rightarrow> files w
                 | Some written \<Rightarrow>
                     (files w)(get_temp_csv out \<mapsto>
                        read_or_empty (files w) (get_temp_csv out) @ written)))
         else append_failure out p t (extraction_failed e)
                (case reached of
                   None \<Rightarrow> files w
                 | Some written \<Rightarrow>
                     (files w)(get_temp_csv out \<mapsto>
                        read_or_empty (files w) (get_temp_csv out) @ written)))) \<or>
   (\<exists>msg w'. process_item ia out delay n (p, t) (rs, w) =
        (rs\<lparr>failed_count := failed_count rs + 1\<rparr>, w') \<and>
      csv_writes w' = csv_writes w \<and>
      files w' = (if p mod 10 = 0
                  then save_progress out p (append_failure out p t msg (files w))
                  else append_failure out p t msg (files w)))"
proof -
  obtain sh err c' evs where s: "search_tv_show ia t 3 (client w) = ((sh, err), c', evs)"
    by (metis prod.exhaust)
  let ?w = "w\<lparr>client := c', trace := trace w @ evs\<rparr>"
  have n: "next_csv_write ?w = next_csv_write w" by (simp add: next_csv_write_def)
  from route_outcome_cases[of p ?w out t sh err rs] show ?thesis
  proof (elim disjE exE conjE)
    fix row
    assume "map_of row ''Position'' = Some (SInt p)" "next_csv_write ?w = Written"
      "route_outcome out p t sh err (rs, ?w) =
        (rs\<lparr>results := results rs @ [row], success_count := success_count rs + 1\<rparr>,
         ?w\<lparr>csv_writes := tl (csv_writes ?w),
           files := append_to_csv (get_temp_csv out) row False (files ?w)\<rparr>)"
    then show ?thesis
      using s n
      by (intro disjI1 exI[of _ row])
         (simp add: process_item_unfold files_save_every_10)
  next
    fix row e reached
    assume "map_of row ''Position'' = Some (SInt p)" "next_csv_write ?w = Raised e reached"
      "route_outcome out p t sh err (rs, ?w) =
        record_failure out p t (extraction_failed e)
          (rs\<lparr>results := results rs @ [row]\<rparr>,
           ?w\<lparr>csv_writes := tl (csv_writes ?w),
             files := (case reached of
                         None \<Rightarrow> files ?w
                       | Some written \<Rightarrow>
                           (files ?w)(get_temp_csv out \<mapsto>
                              read_or_empty (files ?w) (get_temp_csv out) @ written))\<rparr>)"
    then show ?thesis
      using s n
      apply (intro disjI2[OF disjI1])
      apply (intro exI[of _ row] exI[of _ e] exI[of _ reached])
      apply (simp add: process_item_unfold record_failure_def files_save_every_10
               cong: option.case_cong)
      done
  next
    fix msg
    assume "route_outcome out p t sh err (rs, ?w) = record_failure out p t msg (rs, ?w)"
    then show ?thesis
      using s
      apply (intro disjI2[OF disjI2])
      apply (intro exI[of _ msg])
      apply (simp add: process_item_unfold record_failure_def files_save_every_10)
      done
  qed
qed

section \<open>The loop\<close>

lemma run_loop_filter:
  "run_loop ia out delay n s items st =
     foldl (\<lambda>st pt. process_item ia out delay n pt st) st (filter (\<lambda>pt. s \<le> fst pt) items)"
  by (induction items arbitrary: st) (auto simp: not_less)

lemma py_enumerate_lower: "pt \<in> set (py_enumerate i xs) \<Longrightarrow> i \<le> fst pt"
  by (induction xs arbitrary: i) (auto, fastforce)

lemma length_py_enumerate [simp]: "length (py_enumerate i xs) = length xs"
  by (induction xs arbitrary: i) auto

lemma map_snd_py_enumerate [simp]: "map snd (py_enumerate i xs) = xs"
  by (induction xs arbitrary: i) auto

lemma filter_py_enumerate:
  "i \<le> s \<Longrightarrow> filter (\<lambda>pt. s \<le> fst pt) (py_enumerate i xs) = py_enumerate s (drop (nat (s - i)) xs)"
proof (induction xs arbitrary: i)
  case Nil
  then show ?case by simp
next
  case (Cons x xs)
  show ?case
  proof (cases "i = s")
    case True
    have "filter (\<lambda>pt. s \<le> fst pt) (py_enumerate s (x # xs)) = py_enumerate s (x # xs)"
      by (rule filter_True) (auto dest: py_enumerate_lower)
    with True show ?thesis by simp
  next
    case False
    with Cons.prems have lt: "i + 1 \<le> s" by simp
    have "nat (s - i) = Suc (nat (s - (i + 1)))" using lt by simp
    with Cons.IH[OF lt] False Cons.prems show ?thesis by simp
  qed
qed

lemma filter_py_enumerate_all:
  "s \<le> i \<Longrightarrow> filter (\<lambda>pt. s \<le> fst pt) (py_enumerate i xs) = py_enumerate i xs"
  by (rule filter_True) (auto dest: py_enumerate_lower)

text \<open>The loop over a list of items: one outcome per item.\<close>

lemma list_all_tl: "list_all P xs \<Longrightarrow> list_all P (tl xs)"
  by (cases xs) simp_all

lemma next_csv_write_all_written:
  "list_all (\<lambda>oc. oc = Written) (csv_writes w) \<Longrightarrow> next_csv_write w = Written"
  by (cases "csv_writes w") (simp_all add: next_csv_write_def)

lemma first_writes_Suc:
  "first_writes (Suc k) ws = (case ws of [] \<Rightarrow> Written | x # rest \<Rightarrow> x) # first_writes k (tl ws)"
proof (cases ws)
  case Nil
  then show ?thesis by (simp add: first_writes_def)
next
  case (Cons x rest)
  have "take (k - length rest) (replicate (Suc k) Written) =
        take (k - length rest) (replicate k Written)"
    by (simp only: take_replicate) (simp add: min_def)
  with Cons show ?thesis by (simp add: first_writes_def)
qed

lemma first_writes_next:
  "first_writes (Suc k) (csv_writes w) = next_csv_write w # first_writes k (tl (csv_writes w))"
  by (simp add: first_writes_Suc next_csv_write_def)

lemma foldl_process_item_records:
  "\<exists>outs.
     length outs = length items \<and>
     results (fst (foldl (\<lambda>st pt. process_item ia out delay n pt st) (rs, w) items)) =
       results rs @ concat (map rows_of outs) \<and>
     map (\<lambda>row. map_of row ''Position'') (concat (map rows_of outs)) =
       map (\<lambda>pt. Some (SInt (fst pt))) (map fst (filter (\<lambda>x. has_row (snd x)) (zip items outs))) \<and>
     success_count (fst (foldl (\<lambda>st pt. process_item ia out delay n pt st) (rs, w) items)) =
       success_count rs + int (length (filter (\<lambda>x. succeeded (snd x)) (zip items outs))) \<and>
     failed_count (fst (foldl (\<lambda>st pt. process_item ia out delay n pt st) (rs, w) items)) =
       failed_count rs + int (length (filter (\<lambda>x. \<not> succeeded (snd x)) (zip items outs))) \<and>
     read_or_empty (files (snd (foldl (\<lambda>st pt. process_item ia out delay n pt st) (rs, w) items)))
         (get_temp_csv out) =
       read_or_empty (files w) (get_temp_csv out) @ concat (map stored_text outs) \<and>
     read_or_empty (files (snd (foldl (\<lambda>st pt. process_item ia out delay n pt st) (rs, w) items)))
         (failed_list_file_of out) =
       read_or_empty (files w) (failed_list_file_of out) @
       concat (map (\<lambda>pt. snd pt @ ''\<newline>'')
                 (map fst (filter (\<lambda>x. \<not> succeeded (snd x)) (zip items outs)))) \<and>
     files (snd (foldl (\<lambda>st pt. process_item ia out delay n pt st) (rs, w) items))
         (failed_file_of out) =
       (if filter (\<lambda>x. \<not> succeeded (snd x)) (zip items outs) = [] then files w (failed_file_of out)
        else Some ((case files w (failed_file_of out) of None \<Rightarrow> failed_header | Some old \<Rightarrow> old) @
                   concat (map (\<lambda>(pt, msg). failure_block (fst pt) (snd pt) msg)
                             (zip (map fst (filter (\<lambda>x. \<not> succeeded (snd x)) (zip items outs)))
                                  (map (\<lambda>x. message_of (snd x))
                                     (filter (\<lambda>x. \<not> succeeded (snd x)) (zip items outs))))))) \<and>
     map succeeded (filter has_row outs) =
       map (\<lambda>oc. oc = Written) (first_writes (length (filter has_row outs)) (csv_writes w)) \<and>
     (list_all (\<lambda>oc. oc = Written) (csv_writes w) \<longrightarrow>
        list_all (\<lambda>oc. succeeded oc = has_row oc) outs)"
  (is "\<exists>outs. ?P items rs w outs")
proof (induction items arbitrary: rs w)
  case Nil
  show ?case by (simp add: first_writes_def)
next
  case (Cons pt items)
  obtain p t where pt: "pt = (p, t)" by (cases pt)
  let ?step = "\<lambda>st pt. process_item ia out delay n pt st"
  from process_item_outcome[of ia out delay n p t rs w]
  show ?case
  proof (elim disjE exE conjE)
    fix row w1
    assume step: "process_item ia out delay n (p, t) (rs, w) =
        (rs\<lparr>results := results rs @ [row], success_count := success_count rs + 1\<rparr>, w1)"
      and pos: "map_of row ''Position'' = Some (SInt p)"
      and nx: "next_csv_write w = Written"
      and cw: "csv_writes w1 = tl (csv_writes w)"
      and fs: "files w1 = (if p mod 10 = 0
                  then save_progress out p (append_to_csv (get_temp_csv out) row False (files w))
                  else append_to_csv (get_temp_csv out) row False (files w))"
    let ?rs1 = "rs\<lparr>results := results rs @ [row], success_count := success_count rs + 1\<rparr>"
    from Cons.IH[of ?rs1 w1] obtain outs where IH: "?P items ?rs1 w1 outs"
      by blast
    have t1: "read_or_empty (files w1) (get_temp_csv out) =
                read_or_empty (files w) (get_temp_csv out) @ csv_line (dict_to_list row)"
      using fs by (simp add: read_or_empty_def save_progress_other paths_distinct append_to_csv_same)
    have f1: "read_or_empty (files w1) (failed_list_file_of out) =
                read_or_empty (files w) (failed_list_file_of out)"
      using fs by (simp add: read_or_empty_def save_progress_other append_to_csv_other paths_distinct)
    have g1: "files w1 (failed_file_of out) = files w (failed_file_of out)"
      using fs by (simp add: save_progress_other append_to_csv_other paths_distinct)
    have a1: "list_all (\<lambda>oc. oc = Written) (csv_writes w1)"
      if "list_all (\<lambda>oc. oc = Written) (csv_writes w)"
      using that cw by (simp add: list_all_tl)
    have "?P (pt # items) rs w (Stored row # outs)"
      using IH pt step pos t1 f1 g1 a1 nx cw by (simp add: first_writes_next)
    then show ?thesis by blast
  next
    fix row e reached w1
    assume step: "process_item ia out delay n (p, t) (rs, w) =
        (rs\<lparr>results := results rs @ [row], failed_count := failed_count rs + 1\<rparr>, w1)"
      and pos: "map_of row ''Position'' = Some (SInt p)"
      and nx: "next_csv_write w = Raised e reached"
      and cw: "csv_writes w1 = tl (csv_writes w)"
      and fs: "files w1 =
        (if p mod 10 = 0
         then save_progress out p (append_failure out p t (extraction_failed e)
                (case reached of
                   None \<Rightarrow> files w
                 | Some written \<Rightarrow>
                     (files w)(get_temp_csv out \<mapsto>
                        read_or_empty (files w) (get_temp_csv out) @ written)))
         else append_failure out p t (extraction_failed e)
                (case reached of
                   None \<Rightarrow> files w
                 | Some written \<Rightarrow>
                     (files w)(get_temp_csv out \<mapsto>
                        read_or_empty (files w) (get_temp_csv out) @ written)))"
    let ?rs1 = "rs\<lparr>results := results rs @ [row], failed_count := failed_count rs + 1\<rparr>"
    let ?reached = "case reached of None \<Rightarrow> [] | Some written \<Rightarrow> written"
    let ?msg = "extraction_failed e"
    from Cons.IH[of ?rs1 w1] obtain outs where IH: "?P items ?rs1 w1 outs"
      by blast
    have t1: "read_or_empty (files w1) (get_temp_csv out) =
                read_or_empty (files w) (get_temp_csv out) @ ?reached"
      using fs
      by (simp add: read_or_empty_def save_progress_other paths_distinct append_failure_other
            split: option.splits)
    have f1: "read_or_empty (files w1) (failed_list_file_of out) =
                read_or_empty (files w) (failed_list_file_of out) @ t @ ''\<newline>''"
      using fs
      by (simp add: read_or_empty_def save_progress_other append_failure_list paths_distinct
            split: option.splits)
    have g1: "files w1 (failed_file_of out) =
                Some ((case files w (failed_file_of out) of None \<Rightarrow> failed_header | Some old \<Rightarrow> old) @
                      failure_block p t ?msg)"
      using fs
      by (simp add: save_progress_other append_failure_log paths_distinct split: option.splits)
    have a1: "\<not> list_all (\<lambda>oc. oc = Written) (csv_writes w)"
      using nx next_csv_write_all_written[of w] by auto
    have "?P (pt # items) rs w (Unstored row ?reached ?msg # outs)"
      using IH pt step pos t1 f1 g1 a1 nx cw by (simp add: first_writes_next)
    then show ?thesis by blast
  next
    fix msg w1
    assume step: "process_item ia out delay n (p, t) (rs, w) =
        (rs\<lparr>failed_count := failed_count rs + 1\<rparr>, w1)"
      and cw: "csv_writes w1 = csv_writes w"
      and fs: "files w1 = (if p mod 10 = 0
                  then save_progress out p (append_failure out p t msg (files w))
                  else append_failure out p t msg (files w))"
    let ?rs1 = "rs\<lparr>failed_count := failed_count rs + 1\<rparr>"
    from Cons.IH[of ?rs1 w1] obtain outs where IH: "?P items ?rs1 w1 outs"
      by blast
    have t1: "read_or_empty (files w1) (get_temp_csv out) = read_or_empty (files w) (get_temp_csv out)"
      using fs by (simp add: read_or_empty_def save_progress_other paths_distinct append_failure_other)
    have f1: "read_or_empty (files w1) (failed_list_file_of out) =
                read_or_empty (files w) (failed_list_file_of out) @ t @ ''\<newline>''"
      using fs by (simp add: read_or_empty_def save_progress_other append_failure_list paths_distinct)
    have g1: "files w1 (failed_file_of out) =
                Some ((case files w (failed_file_of out) of None \<Rightarrow> failed_header | Some old \<Rightarrow> old) @
                      failure_block p t msg)"
      using fs by (simp add: save_progress_other append_failure_log paths_distinct)
    have "?P (pt # items) rs w (Failed msg # outs)"
      using IH pt step t1 f1 g1 cw by simp
    then show ?thesis by blast
  qed
qed

section \<open>Printing and parsing the marker\<close>

lemma is_digit_digit_char: "d < 10 \<Longrightarrow> is_digit (digit_char d)"
  by (simp add: is_digit_def digit_char_def)

lemma digit_val_digit_char: "d < 10 \<Longrightarrow> digit_val (digit_char d) = int d"
  by (simp add: digit_val_def digit_char_def)

lemma not_space_digit: "is_digit c \<Longrightarrow> \<not> is_space c"
  by (auto simp: is_digit_def is_space_def)

lemma str_nat_digits: "\<forall>c \<in> set (str_nat n). is_digit c"
proof (induction n rule: str_nat.induct)
  case (1 n)
  show ?case
  proof (cases "n < 10")
    case True
    then show ?thesis by (subst str_nat.simps) (simp add: is_digit_digit_char)
  next
    case False
    with 1 show ?thesis by (subst str_nat.simps) (simp add: is_digit_digit_char)
  qed
qed

lemma str_nat_nonempty: "str_nat n \<noteq> []"
  by (subst str_nat.simps) simp

lemma digits_rest_all_digits:
  "\<forall>c \<in> set ds. is_digit c \<Longrightarrow>
   digits_rest acc ds = Some (foldl (\<lambda>a c. 10 * a + digit_val c) acc ds)"
  by (induction acc ds rule: digits_rest.induct) auto

lemma parse_digits_all_digits:
  "ds \<noteq> [] \<Longrightarrow> \<forall>c \<in> set ds. is_digit c \<Longrightarrow>
   parse_digits ds = Some (foldl (\<lambda>a c. 10 * a + digit_val c) 0 ds)"
  by (cases ds) (simp_all add: parse_digits_def digits_rest_all_digits)

lemma foldl_str_nat: "foldl (\<lambda>a c. 10 * a + digit_val c) 0 (str_nat n) = int n"
proof (induction n rule: str_nat.induct)
  case (1 n)
  show ?case
  proof (cases "n < 10")
    case True
    then show ?thesis by (subst str_nat.simps) (simp add: digit_val_digit_char)
  next
    case False
    with 1 have "foldl (\<lambda>a c. 10 * a + digit_val c) 0 (str_nat (n div 10)) = int (n div 10)" by simp
    with False show ?thesis
      by (subst str_nat.simps) (simp add: digit_val_digit_char zdiv_int zmod_int)
  qed
qed

lemma py_strip_no_space:
  "s \<noteq> [] \<Longrightarrow> \<not> is_space (hd s) \<Longrightarrow> \<not> is_space (last s) \<Longrightarrow> py_strip s = s"
proof -
  assume a: "s \<noteq> []" "\<not> is_space (hd s)" "\<not> is_space (last s)"
  then have 1: "dropWhile is_space s = s" by (cases s) auto
  from a have "rev s \<noteq> []" "\<not> is_space (hd (rev s))" by (simp_all add: hd_rev)
  then have 2: "dropWhile is_space (rev s) = rev s" by (cases "rev s") auto
  show ?thesis by (simp add: py_strip_def 1 2)
qed

lemma py_strip_str_nat: "py_strip (str_nat n) = str_nat n"
  by (rule py_strip_no_space)
     (use str_nat_digits[of n] str_nat_nonempty[of n] in \<open>auto intro!: not_space_digit\<close>)

lemma py_int_py_str: "0 \<le> i \<Longrightarrow> py_int (py_strip (py_str i)) = Some i"
proof -
  assume i: "0 \<le> i"
  let ?s = "str_nat (nat i)"
  obtain c r where cr: "?s = c # r" using str_nat_nonempty[of "nat i"] by (cases ?s) auto
  have dig: "is_digit c" using str_nat_digits[of "nat i"] cr by simp
  then have "c \<noteq> CHR ''-''" "c \<noteq> CHR ''+''" by (auto simp: is_digit_def)
  moreover have "parse_digits ?s = Some i"
    using parse_digits_all_digits[OF str_nat_nonempty str_nat_digits, of "nat i"] foldl_str_nat[of "nat i"] i
    by simp
  moreover have "py_strip (py_strip (c # r)) = c # r"
    using py_strip_str_nat[of "nat i"] cr by simp
  ultimately show ?thesis
    using i cr by (simp add: py_int_def py_str_def)
qed

lemma load_progress_saved:
  "0 \<le> p \<Longrightarrow> fs (get_progress_file out) = Some (py_str p) \<Longrightarrow> load_progress out fs = Some p"
  by (simp add: load_progress_def py_int_py_str)

section \<open>Files that are written and not read\<close>

lemma append_to_csv_agree:
  "(\<forall>q. q \<noteq> x \<longrightarrow> g q = f q) \<Longrightarrow>
   (\<forall>q. q \<noteq> x \<longrightarrow> append_to_csv path row h g q = append_to_csv path row h f q)"
  by (simp add: append_to_csv_def read_or_empty_def)

lemma append_failure_agree:
  "(\<forall>q. q \<noteq> x \<longrightarrow> g q = f q) \<Longrightarrow>
   (\<forall>q. q \<noteq> x \<longrightarrow> append_failure out p t msg g q = append_failure out p t msg f q)"
  by (auto simp: append_failure_def Let_def read_or_empty_def paths_distinct split: option.splits)

lemma save_progress_agree:
  "(\<forall>q. q \<noteq> x \<longrightarrow> g q = f q) \<Longrightarrow>
   (\<forall>q. q \<noteq> x \<longrightarrow> save_progress out p g q = save_progress out p f q)"
  by (simp add: save_progress_def)

lemma append_to_csv_or_raise_agree:
  "agree_except x w w2 \<Longrightarrow>
   fst (append_to_csv_or_raise path row w2) = fst (append_to_csv_or_raise path row w) \<and>
   agree_except x (snd (append_to_csv_or_raise path row w)) (snd (append_to_csv_or_raise path row w2))"
  using append_to_csv_agree[of x "files w2" "files w"]
  by (simp add: append_to_csv_or_raise_def next_csv_write_def agree_except_def read_or_empty_def
        split: write_outcome.splits option.splits list.splits)

lemma record_success_agree:
  "agree_except x w w2 \<Longrightarrow>
   fst (record_success out p d (rs, w2)) = fst (record_success out p d (rs, w)) \<and>
   fst (snd (record_success out p d (rs, w2))) = fst (snd (record_success out p d (rs, w))) \<and>
   agree_except x (snd (snd (record_success out p d (rs, w))))
                  (snd (snd (record_success out p d (rs, w2))))"
  using append_to_csv_or_raise_agree[of x w w2 "get_temp_csv out"
      "AList.update ''Position'' (SInt p) d"]
  by (auto simp: record_success_def Let_def split: prod.splits option.splits)

lemma record_failure_agree:
  "agree_except x w w2 \<Longrightarrow>
   fst (record_failure out p t msg (rs, w2)) = fst (record_failure out p t msg (rs, w)) \<and>
   agree_except x (snd (record_failure out p t msg (rs, w))) (snd (record_failure out p t msg (rs, w2)))"
  using append_failure_agree[of x "files w2" "files w"]
  by (simp add: record_failure_def agree_except_def)

lemma route_outcome_agree:
  assumes "agree_except x w w2"
  shows "fst (route_outcome out p t sh err (rs, w2)) = fst (route_outcome out p t sh err (rs, w)) \<and>
   agree_except x (snd (route_outcome out p t sh err (rs, w))) (snd (route_outcome out p t sh err (rs, w2)))"
proof -
  have fail: "fst (record_failure out p t msg (rs', v2)) = fst (record_failure out p t msg (rs', v)) \<and>
      agree_except x (snd (record_failure out p t msg (rs', v))) (snd (record_failure out p t msg (rs', v2)))"
    if "agree_except x v v2" for msg rs' v v2
    using that by (rule record_failure_agree)
  have clk: "clock w2 = clock w" using assms by (simp add: agree_except_def)
  show ?thesis
  proof (cases sh)
    case None
    then show ?thesis using fail[OF assms] by (simp add: route_outcome_def)
  next
    case (Some m)
    show ?thesis
    proof (cases "movie_truthy m")
      case False
      with Some show ?thesis using fail[OF assms] by (simp add: route_outcome_def)
    next
      case True
      show ?thesis
      proof (cases "extract_show_data (clock w) m")
        case (Inl e)
        with Some True clk show ?thesis using fail[OF assms] by (simp add: route_outcome_def)
      next
        case (Inr d)
        obtain e1 r1 v1 where a: "record_success out p d (rs, w) = (e1, r1, v1)"
          by (metis prod.exhaust)
        obtain e2 r2 v2 where b: "record_success out p d (rs, w2) = (e2, r2, v2)"
          by (metis prod.exhaust)
        from record_success_agree[OF assms, of out p d rs] a b
        have eq: "e2 = e1" "r2 = r1" and ag: "agree_except x v1 v2" by simp_all
        show ?thesis
        proof (cases e1)
          case None
          with Some True Inr clk a b eq ag show ?thesis by (simp add: route_outcome_def)
        next
          case (Some e)
          with \<open>sh = Some m\<close> True Inr clk a b eq fail[OF ag, of "extraction_failed e" r1]
          show ?thesis by (simp add: route_outcome_def)
        qed
      qed
    qed
  qed
qed

lemma save_every_10_agree:
  "agree_except x w w2 \<Longrightarrow> agree_except x (save_every_10 out p w) (save_every_10 out p w2)"
  using save_progress_agree[of x "files w2" "files w"]
  by (simp add: save_every_10_def agree_except_def)

lemma delay_between_agree:
  "agree_except x w w2 \<Longrightarrow> agree_except x (delay_between d p n w) (delay_between d p n w2)"
  by (simp add: delay_between_def agree_except_def)

lemma process_item_agree:
  assumes "agree_except x w w2"
  shows "fst (process_item ia out delay n pt (rs, w2)) = fst (process_item ia out delay n pt (rs, w)) \<and>
         agree_except x (snd (process_item ia out delay n pt (rs, w)))
                        (snd (process_item ia out delay n pt (rs, w2)))"
proof -
  obtain p t where pt: "pt = (p, t)" by (cases pt)
  obtain sh err c' evs where s: "search_tv_show ia t 3 (client w) = ((sh, err), c', evs)"
    by (metis prod.exhaust)
  have c: "client w2 = client w" using assms by (simp add: agree_except_def)
  have a1: "agree_except x (w\<lparr>client := c', trace := trace w @ evs\<rparr>)
                           (w2\<lparr>client := c', trace := trace w2 @ evs\<rparr>)"
    using assms by (simp add: agree_except_def)
  from route_outcome_agree[OF a1, of out p t sh err rs]
  show ?thesis
    using s c pt
    by (auto simp: process_item_unfold split: prod.splits
             intro!: delay_between_agree save_every_10_agree)
qed

lemma foldl_process_item_agree:
  "agree_except x w w2 \<Longrightarrow>
   fst (foldl (\<lambda>st pt. process_item ia out delay n pt st) (rs, w2) items) =
     fst (foldl (\<lambda>st pt. process_item ia out delay n pt st) (rs, w) items) \<and>
   agree_except x (snd (foldl (\<lambda>st pt. process_item ia out delay n pt st) (rs, w) items))
                  (snd (foldl (\<lambda>st pt. process_item ia out delay n pt st) (rs, w2) items))"
proof (induction items arbitrary: rs w w2)
  case Nil
  then show ?case by simp
next
  case (Cons pt items)
  let ?a = "process_item ia out delay n pt (rs, w)"
  let ?b = "process_item ia out delay n pt (rs, w2)"
  from process_item_agree[OF Cons.prems, of ia out delay n pt rs]
  have 1: "fst ?b = fst ?a" and 2: "agree_except x (snd ?a) (snd ?b)" by simp_all
  from Cons.IH[OF 2, of "fst ?a"] 1 show ?case
    by (simp add: prod_eq_iff[symmetric] split_pairs) (metis prod.collapse)
qed

lemma finalize_agree:
  assumes "agree_except x w w2" "x = get_temp_csv out \<or> x = get_progress_file out"
  shows "w2\<lparr>files := finalize out rows (files w2)\<rparr> = w\<lparr>files := finalize out rows (files w)\<rparr>"
proof -
  have "finalize out rows (files w2) q = finalize out rows (files w) q" for q
    using assms by (auto simp: finalize_def Let_def agree_except_def)
  then have "finalize out rows (files w2) = finalize out rows (files w)" by (rule ext)
  then show ?thesis using assms(1) by (simp add: agree_except_def)
qed

section \<open>Startup\<close>

lemma out_paths:
  "get_temp_csv ''out.csv'' = ''out_temp.csv''"
  "get_progress_file ''out.csv'' = ''out_progress.txt''"
  "failed_file_of ''out.csv'' = ''out_failed.txt''"
  "failed_list_file_of ''out.csv'' = ''out_failed_list.txt''"
  by (simp_all add: get_temp_csv_def get_progress_file_def failed_file_of_def
        failed_list_file_of_def rsplit_dot_head_def)

lemma check_resume_zero:
  "load_progress out (files w) = Some 0 \<Longrightarrow> check_resume out w = Inr (1, w)"
  by (simp add: check_resume_def)

lemma check_resume_absent:
  "files w (get_progress_file out) = None \<Longrightarrow> check_resume out w = Inr (1, w)"
  by (simp add: check_resume_def load_progress_def)

lemma init_temp_csv_agree:
  "agree_except x w w2 \<Longrightarrow> agree_except x (init_temp_csv out s w) (init_temp_csv out s w2)"
  using append_to_csv_agree[of x "files w2" "files w"]
  by (simp add: init_temp_csv_def agree_except_def)

lemma run_tail_agree:
  assumes "agree_except x w1 w2" "x = get_temp_csv out \<or> x = get_progress_file out"
  shows "(case run_loop ia out delay n s items (rs0, init_temp_csv out s w2) of
            (rs, w3) \<Rightarrow> Inr (rs, w3\<lparr>files := finalize out (results rs) (files w3)\<rparr>)) =
         (case run_loop ia out delay n s items (rs0, init_temp_csv out s w1) of
            (rs, w3) \<Rightarrow> (Inr (rs, w3\<lparr>files := finalize out (results rs) (files w3)\<rparr>) :: fatal + _))"
proof -
  let ?step = "\<lambda>st pt. process_item ia out delay n pt st"
  let ?items = "filter (\<lambda>pt. s \<le> fst pt) items"
  let ?a = "foldl ?step (rs0, init_temp_csv out s w1) ?items"
  let ?b = "foldl ?step (rs0, init_temp_csv out s w2) ?items"
  from foldl_process_item_agree[OF init_temp_csv_agree[OF assms(1)],
      where ia=ia and out=out and delay=delay and n=n and rs=rs0 and items="?items"]
  have 1: "fst ?b = fst ?a" and 2: "agree_except x (snd ?a) (snd ?b)" by simp_all
  obtain ra wa where a: "?a = (ra, wa)" by (cases ?a)
  obtain rb wb where b: "?b = (rb, wb)" by (cases ?b)
  from finalize_agree[OF 2 assms(2), of "results (fst ?a)"] 1
  show ?thesis by (simp add: run_loop_filter a b)
qed

lemma process_tv_list_marker_zero:
  assumes "load_progress out (files w) = Some 0" "inp \<noteq> get_progress_file out"
  shows "process_tv_list ia inp out delay (w\<lparr>files := (files w)(get_progress_file out := None)\<rparr>) =
         process_tv_list ia inp out delay w"
proof -
  let ?w2 = "w\<lparr>files := (files w)(get_progress_file out := None)\<rparr>"
  have a: "agree_except (get_progress_file out) w ?w2" by (simp add: agree_except_def)
  have c1: "check_resume out w = Inr (1, w)" using assms(1) by (rule check_resume_zero)
  have c2: "check_resume out ?w2 = Inr (1, ?w2)" by (rule check_resume_absent) simp
  show ?thesis
    using assms(2) c1 c2 run_tail_agree[OF a, of out ia delay]
    by (simp add: process_tv_list_def Let_def split: option.splits)
qed


section \<open>The run as a whole\<close>

lemma sorted_fst_py_enumerate: "sorted_wrt (<) (map fst (py_enumerate i xs))"
proof (induction xs arbitrary: i)
  case Nil
  show ?case by simp
next
  case (Cons x xs)
  have "i < fst pt" if "pt \<in> set (py_enumerate (i + 1) xs)" for pt
    using py_enumerate_lower[OF that] by simp
  with Cons.IH[of "i + 1"] show ?case by auto
qed

lemma set_zip_filter_fst: "set (map fst (filter Q (zip xs ys))) \<subseteq> set xs"
  by (auto dest: set_zip_leftD)

lemma sorted_zip_filter:
  "sorted_wrt P (map f xs) \<Longrightarrow> sorted_wrt P (map f (map fst (filter Q (zip xs ys))))"
proof (induction xs arbitrary: ys)
  case Nil
  then show ?case by simp
next
  case (Cons x xs)
  show ?case
  proof (cases ys)
    case Nil
    then show ?thesis by simp
  next
    case (Cons y ys')
    have "\<forall>z \<in> set (map fst (filter Q (zip xs ys'))). P (f x) (f z)"
      using Cons.prems set_zip_filter_fst[of Q xs ys'] by auto
    with Cons.IH[of ys'] Cons.prems Cons show ?thesis by auto
  qed
qed

lemma check_resume_resume:
  assumes "load_progress out (files w) = Some M" "M \<noteq> 0" "files w (get_temp_csv out) \<noteq> None"
    "stdin w = line # rest" "py_lower (py_strip line) = ''y''"
  shows "check_resume out w = Inr (M + 1, w\<lparr>stdin := rest, trace := trace w @ [Input]\<rparr>)"
  using assms by (simp add: check_resume_def)

lemma check_resume_restart:
  assumes "load_progress out (files w) = Some M" "M \<noteq> 0" "files w (get_temp_csv out) \<noteq> None"
    "stdin w = line # rest" "py_lower (py_strip line) \<noteq> ''y''"
  shows "check_resume out w =
           Inr (1, w\<lparr>stdin := rest, trace := trace w @ [Input],
                      files := ((files w)(get_temp_csv out := None))(get_progress_file out := None)\<rparr>)"
  using assms by (simp add: check_resume_def)

lemma process_tv_list_unfold:
  assumes "files w inp = Some content" "check_resume out w = Inr (s, w1)"
  shows "process_tv_list ia inp out delay w =
           (case foldl (\<lambda>st pt. process_item ia out delay (int (length (read_titles content))) pt st)
                   (\<lparr>results = [], failed_count = 0, success_count = 0\<rparr>, init_temp_csv out s w1)
                   (filter (\<lambda>pt. s \<le> fst pt) (py_enumerate 1 (read_titles content))) of
              (rs, w3) \<Rightarrow> Inr (rs, w3\<lparr>files := finalize out (results rs) (files w3)\<rparr>))"
  using assms by (simp add: process_tv_list_def Let_def run_loop_filter)

lemma process_tv_list_Inr:
  assumes "process_tv_list ia inp out delay w = Inr (rs, w')"
  obtains content s w1 w3 where
    "files w inp = Some content" "check_resume out w = Inr (s, w1)"
    "foldl (\<lambda>st pt. process_item ia out delay (int (length (read_titles content))) pt st)
        (\<lparr>results = [], failed_count = 0, success_count = 0\<rparr>, init_temp_csv out s w1)
        (filter (\<lambda>pt. s \<le> fst pt) (py_enumerate 1 (read_titles content))) = (rs, w3)"
    "w' = w3\<lparr>files := finalize out (results rs) (files w3)\<rparr>"
proof -
  from assms obtain content where c: "files w inp = Some content"
    by (auto simp: process_tv_list_def split: option.splits)
  from assms c obtain s w1 where r: "check_resume out w = Inr (s, w1)"
    by (auto simp: process_tv_list_def Let_def split: sum.splits)
  let ?f = "foldl (\<lambda>st pt. process_item ia out delay (int (length (read_titles content))) pt st)
        (\<lparr>results = [], failed_count = 0, success_count = 0\<rparr>, init_temp_csv out s w1)
        (filter (\<lambda>pt. s \<le> fst pt) (py_enumerate 1 (read_titles content)))"
  obtain rs3 w3 where f: "?f = (rs3, w3)" by (cases ?f)
  from assms process_tv_list_unfold[OF c r, of ia delay] f
  have "rs3 = rs" "w' = w3\<lparr>files := finalize out (results rs) (files w3)\<rparr>" by auto
  with c r f that show thesis by blast
qed

lemma finalize_files:
  "finalize out rows fs out =
     Some (csv_line fieldnames @ concat (map (\<lambda>row. csv_line (dict_to_list row)) rows))"
  "finalize out rows fs (get_temp_csv out) = None"
  "finalize out rows fs (get_progress_file out) = None"
  "q \<noteq> out \<Longrightarrow> q \<noteq> get_temp_csv out \<Longrightarrow> q \<noteq> get_progress_file out \<Longrightarrow>
     finalize out rows fs q = fs q"
  by (simp_all add: finalize_def Let_def output_distinct paths_distinct)

lemma check_resume_agree_temp:
  assumes "agree_except (get_temp_csv out) w w2"
    "files w (get_temp_csv out) \<noteq> None \<longleftrightarrow> files w2 (get_temp_csv out) \<noteq> None"
  shows "(\<exists>f. check_resume out w = Inl f \<and> check_resume out w2 = Inl f) \<or>
         (\<exists>s w1 w1'. check_resume out w = Inr (s, w1) \<and> check_resume out w2 = Inr (s, w1') \<and>
             agree_except (get_temp_csv out) w1 w1')"
proof -
  have lp: "load_progress out (files w2) = load_progress out (files w)"
    using assms(1) by (simp add: load_progress_def agree_except_def paths_distinct)
  have st: "stdin w2 = stdin w" using assms(1) by (simp add: agree_except_def)
  show ?thesis
    using assms lp st
    by (auto simp: check_resume_def Let_def agree_except_def split: option.splits list.splits)
qed

lemma process_tv_list_temp_content:
  assumes "files w (get_temp_csv out) \<noteq> None" "inp \<noteq> get_temp_csv out"
  shows "process_tv_list ia inp out delay (w\<lparr>files := (files w)(get_temp_csv out \<mapsto> x)\<rparr>) =
         process_tv_list ia inp out delay w"
proof -
  let ?w2 = "w\<lparr>files := (files w)(get_temp_csv out \<mapsto> x)\<rparr>"
  have a: "agree_except (get_temp_csv out) w ?w2" by (simp add: agree_except_def)
  have e: "files w (get_temp_csv out) \<noteq> None \<longleftrightarrow> files ?w2 (get_temp_csv out) \<noteq> None"
    using assms(1) by simp
  have i: "files ?w2 inp = files w inp" using assms(2) by simp
  from check_resume_agree_temp[OF a e] show ?thesis
  proof (elim disjE exE conjE)
    fix f assume "check_resume out w = Inl f" "check_resume out ?w2 = Inl f"
    then show ?thesis using i by (simp add: process_tv_list_def Let_def split: option.splits)
  next
    fix s w1 w1'
    assume c: "check_resume out w = Inr (s, w1)" "check_resume out ?w2 = Inr (s, w1')"
      and ag: "agree_except (get_temp_csv out) w1 w1'"
    show ?thesis
      using i c run_tail_agree[OF ag, of out ia delay _ s]
      by (simp add: process_tv_list_def Let_def split: option.splits)
  qed
qed

text \<open>The definitions that evaluate a run on concrete data.\<close>

lemma lower_char_Y: "lower_char CHR ''Y'' = CHR ''y''"
  by code_simp

lemma lower_char_other:
  "\<not> (65 \<le> (of_char c :: nat) \<and> (of_char c :: nat) \<le> 90) \<Longrightarrow> lower_char c = c"
  by (auto simp: lower_char_def)

lemmas model_defs =
  process_tv_list_def check_resume_def load_progress_def init_temp_csv_def append_to_csv_def
  read_titles_def py_strip_def py_lower_def lower_char_Y lower_char_other
  is_space_def process_item_def
  search_tv_show_def search_attempts.simps scripted_def route_outcome_def record_success_def
  next_csv_write_def append_to_csv_or_raise_def extraction_failed_def
  record_failure_def movie_truthy_def extract_show_data_def series_a_def film_x_def bad_entry_def
  accepted_kind_def get_or_empty_def truthy_def truthy_val_def index0_def join_val_def
  join_str_val_def str_scalar_def save_every_10_def delay_between_def append_failure_def
  read_or_empty_def error_or_not_found_def clean_error_msg_def is_retryable_def throttled_def
  broken_def finalize_def Let_def out_paths py_int_def parse_digits_def is_digit_def
  digit_val_def


lemma sorted_items:
  "sorted_wrt (<) (map fst (filter (\<lambda>pt. s \<le> fst pt) (py_enumerate i xs)))"
proof -
  have "map fst (filter (\<lambda>pt. s \<le> fst pt) (py_enumerate i xs)) =
        filter (\<lambda>p. s \<le> p) (map fst (py_enumerate i xs))"
    by (simp add: filter_map comp_def)
  then show ?thesis
    using sorted_wrt_filter[OF sorted_fst_py_enumerate[of i xs], of "\<lambda>p. s \<le> p"] by simp
qed

lemma run_positions:
  assumes "process_tv_list ia inp out delay w = Inr (rs, w')"
  shows "\<exists>s w1 ps. check_resume out w = Inr (s, w1) \<and>
           map (\<lambda>row. map_of row ''Position'') (results rs) = map (\<lambda>p. Some (SInt p)) ps \<and>
           sorted_wrt (<) ps \<and> (\<forall>p \<in> set ps. s \<le> p)"
proof -
  from assms obtain content s w1 w3 where
    c: "check_resume out w = Inr (s, w1)" and
    f: "foldl (\<lambda>st pt. process_item ia out delay (int (length (read_titles content))) pt st)
        (\<lparr>results = [], failed_count = 0, success_count = 0\<rparr>, init_temp_csv out s w1)
        (filter (\<lambda>pt. s \<le> fst pt) (py_enumerate 1 (read_titles content))) = (rs, w3)"
    by (rule process_tv_list_Inr)
  let ?items = "filter (\<lambda>pt. s \<le> fst pt) (py_enumerate 1 (read_titles content))"
  from foldl_process_item_records[of ?items ia out delay "int (length (read_titles content))"
      "\<lparr>results = [], failed_count = 0, success_count = 0\<rparr>" "init_temp_csv out s w1"] f
  obtain outs where
    r: "results rs = concat (map rows_of outs)" and
    p: "map (\<lambda>row. map_of row ''Position'') (concat (map rows_of outs)) =
          map (\<lambda>pt. Some (SInt (fst pt)))
            (map fst (filter (\<lambda>x. has_row (snd x)) (zip ?items outs)))"
    by auto
  let ?ps = "map fst (map fst (filter (\<lambda>x. has_row (snd x)) (zip ?items outs)))"
  have 1: "map (\<lambda>row. map_of row ''Position'') (results rs) = map (\<lambda>p. Some (SInt p)) ?ps"
    using r p by (simp add: comp_def)
  have 2: "sorted_wrt (<) ?ps"
    by (rule sorted_zip_filter) (rule sorted_items)
  have "set (map fst (filter (\<lambda>x. has_row (snd x)) (zip ?items outs))) \<subseteq> set ?items"
    by (rule set_zip_filter_fst)
  then have "fst ` set (map fst (filter (\<lambda>x. has_row (snd x)) (zip ?items outs))) \<subseteq> fst ` set ?items"
    by (rule image_mono)
  then have sub: "set ?ps \<subseteq> fst ` set ?items"
    by (simp only: set_map)
  have 3: "\<forall>p \<in> set ?ps. s \<le> p"
  proof
    fix p assume "p \<in> set ?ps"
    with sub have "p \<in> fst ` set ?items" by blast
    then show "s \<le> p" by auto
  qed
  from c 1 2 3 show ?thesis by blast
qed


section \<open>The retry loop\<close>

lemma sleeps_of_append [simp]: "sleeps_of (xs @ ys) = sleeps_of xs @ sleeps_of ys"
  by (induction xs rule: sleeps_of.induct) auto












section \<open>The walk over the candidates\<close>




section \<open>The events of a run\<close>

lemma find_tv_series_events:
  "find_tv_series ia found c = (r, c', evs) \<Longrightarrow> SearchMovie t' \<notin> set evs"
proof (induction found arbitrary: c r c' evs)
  case Nil
  then show ?case by simp
next
  case (Cons x found)
  obtain res c1 where u: "update_info ia c x = (res, c1)" by (cases "update_info ia c x")
  obtain r2 c2 evs2 where f: "find_tv_series ia found c1 = (r2, c2, evs2)"
    by (cases "find_tv_series ia found c1") auto
  from Cons.IH[OF f] have "SearchMovie t' \<notin> set evs2" .
  with Cons.prems u f show ?case
    by (cases res) (auto split: if_splits)
qed

lemma search_attempts_events:
  "search_attempts ia t m a c = (res, c', evs) \<Longrightarrow> SearchMovie t' \<in> set evs \<Longrightarrow> t' = t"
proof (induction ia t m a c arbitrary: res c' evs rule: search_attempts.induct)
  case (1 ia t m a c)
  obtain sr c1 where s: "search_movie ia c t = (sr, c1)" by (cases "search_movie ia c t")
  show ?case
  proof (cases sr)
    case (Inr found)
    obtain r2 c2 evs2 where f: "find_tv_series ia found c1 = (r2, c2, evs2)"
      by (cases "find_tv_series ia found c1") auto
    from find_tv_series_events[OF f, of t'] have "SearchMovie t' \<notin> set evs2" .
    with "1.prems" s Inr f show ?thesis
      by (subst (asm) search_attempts.simps) (auto split: if_splits option.splits)
  next
    case (Inl e)
    show ?thesis
    proof (cases "a < m \<and> is_retryable (clean_error_msg (exn_msg e)) \<and> a < m - 1")
      case True
      obtain res2 c2 evs2 where r: "search_attempts ia t m (a + 1) c1 = (res2, c2, evs2)"
        by (cases "search_attempts ia t m (a + 1) c1") auto
      from True have t1: "a < m" and t2: "is_retryable (clean_error_msg (exn_msg e))"
        and t3: "a < m - 1" by simp_all
      have ih: "SearchMovie t' \<in> set evs2 \<Longrightarrow> t' = t"
        using "1.IH"[OF t1 s[symmetric] Inl t2 t3 r] .
      from "1.prems" s Inl True r ih show ?thesis
        by (subst (asm) search_attempts.simps) auto
    next
      case False
      with "1.prems" s Inl show ?thesis
        by (subst (asm) search_attempts.simps) (auto split: if_splits)
    qed
  qed
qed

lemma process_item_trace:
  "\<exists>evs. trace (snd (process_item ia out delay n (p, t) (rs, w))) = trace w @ evs \<and>
         (\<forall>t'. SearchMovie t' \<in> set evs \<longrightarrow> t' = t)"
proof -
  obtain sh err c' evs where s: "search_tv_show ia t 3 (client w) = ((sh, err), c', evs)"
    by (metis prod.exhaust)
  then have ev: "\<forall>t'. SearchMovie t' \<in> set evs \<longrightarrow> t' = t"
    using search_attempts_events[of ia t 3 0 "client w" "(sh, err)" c' evs]
    by (simp add: search_tv_show_def)
  let ?st = "(rs, w\<lparr>client := c', trace := trace w @ evs\<rparr>)"
  have tr: "trace (snd (route_outcome out p t sh err ?st)) = trace w @ evs"
    using route_outcome_cases[where p = p and w = "w\<lparr>client := c', trace := trace w @ evs\<rparr>"
        and out = out and t = t and sh = sh and err = err and rs = rs]
    by (auto simp: record_failure_def)
  obtain rs2 w2 where ro: "route_outcome out p t sh err ?st = (rs2, w2)"
    by (cases "route_outcome out p t sh err ?st")
  with tr have tr2: "trace w2 = trace w @ evs" by simp
  have "trace (snd (process_item ia out delay n (p, t) (rs, w))) =
          trace w @ evs @ (if delay > 0 \<and> p < n then [Sleep delay] else [])"
    using s ro tr2 by (simp add: process_item_unfold delay_between_def save_every_10_def)
  with ev show ?thesis
    by (intro exI[of _ "evs @ (if delay > 0 \<and> p < n then [Sleep delay] else [])"]) auto
qed

lemma foldl_process_item_trace:
  "\<exists>evs. trace (snd (foldl (\<lambda>st pt. process_item ia out delay n pt st) (rs, w) items)) = trace w @ evs \<and>
         (\<forall>t'. SearchMovie t' \<in> set evs \<longrightarrow> t' \<in> snd ` set items)"
proof (induction items arbitrary: rs w)
  case Nil
  show ?case by simp
next
  case (Cons pt items)
  obtain p t where pt: "pt = (p, t)" by (cases pt)
  obtain rs1 w1 where st: "process_item ia out delay n (p, t) (rs, w) = (rs1, w1)"
    by (cases "process_item ia out delay n (p, t) (rs, w)")
  from process_item_trace[of ia out delay n p t rs w] st obtain evs1 where
    e1: "trace w1 = trace w @ evs1" "\<forall>t'. SearchMovie t' \<in> set evs1 \<longrightarrow> t' = t" by auto
  from Cons.IH[of rs1 w1] obtain evs2 where
    e2: "trace (snd (foldl (\<lambda>st pt. process_item ia out delay n pt st) (rs1, w1) items)) = trace w1 @ evs2"
        "\<forall>t'. SearchMovie t' \<in> set evs2 \<longrightarrow> t' \<in> snd ` set items" by auto
  show ?case
    using pt st e1 e2 by (intro exI[of _ "evs1 @ evs2"]) auto
qed

lemma init_temp_csv_not_1 [simp]: "s \<noteq> 1 \<Longrightarrow> init_temp_csv out s w = w"
  by (simp add: init_temp_csv_def)



section \<open>The marker during the loop\<close>

lemma process_item_progress:
  "files (snd (process_item ia out delay n (p, t) (rs, w))) (get_progress_file out) =
     (if p mod 10 = 0 then Some (py_str p) else files w (get_progress_file out))"
  using process_item_outcome[of ia out delay n p t rs w]
  by (auto simp: save_progress_same append_to_csv_other append_failure_other paths_distinct
        split: option.splits)

lemma run_loop_append:
  "run_loop ia out delay n s (xs @ ys) st = run_loop ia out delay n s ys (run_loop ia out delay n s xs st)"
  by (induction xs arbitrary: st) auto

lemma nth_py_enumerate: "k < length xs \<Longrightarrow> py_enumerate i xs ! k = (i + int k, xs ! k)"
proof (induction xs arbitrary: i k)
  case Nil
  then show ?case by simp
next
  case (Cons x xs)
  then show ?case by (cases k) (auto simp: algebra_simps)
qed

lemma take_Suc_py_enumerate:
  "k < length xs \<Longrightarrow>
   take (Suc k) (py_enumerate i xs) = take k (py_enumerate i xs) @ [(i + int k, xs ! k)]"
  by (simp add: take_Suc_conv_app_nth nth_py_enumerate)

lemma ten_div_le: "10 * ((x::int) div 10) \<le> x"
  using pos_mod_sign[of 10 x] mult_div_mod_eq[of 10 x] by linarith

lemma ten_div_exact: "(x::int) mod 10 = 0 \<Longrightarrow> 10 * (x div 10) = x"
  using mult_div_mod_eq[of 10 x] by simp

lemma ten_le_multiple: "(x::int) mod 10 = 0 \<Longrightarrow> 0 < x \<Longrightarrow> 10 \<le> x"
  using mod_pos_pos_trivial[of x 10] by linarith

lemma div10_same: "(x + 1) mod 10 \<noteq> 0 \<Longrightarrow> (x + 1) div 10 = x div (10::int)"
proof -
  assume nz: "(x + 1) mod 10 \<noteq> 0"
  have r: "0 \<le> x mod 10" "x mod 10 < 10" by simp_all
  have "x mod 10 \<noteq> 9"
  proof
    assume "x mod 10 = 9"
    then have "(x mod 10 + 1) mod 10 = 0" by simp
    then have "(x + 1) mod 10 = 0" by (simp add: mod_add_left_eq)
    with nz show False by simp
  qed
  with r have "x mod 10 + 1 < 10" by linarith
  moreover have "x + 1 = 10 * (x div 10) + (x mod 10 + 1)" by simp
  ultimately show ?thesis
    using r by (intro int_div_pos_eq[of "x + 1" 10 "x div 10" "x mod 10 + 1"]) simp_all
qed

lemma marker_after_prefix:
  "k \<le> length titles \<Longrightarrow>
   files (snd (run_loop ia out delay n s (take k (py_enumerate 1 titles)) (rs, w)))
       (get_progress_file out) =
     (if 10 \<le> 10 * (int k div 10) \<and> s \<le> 10 * (int k div 10)
      then Some (py_str (10 * (int k div 10))) else files w (get_progress_file out))"
proof (induction k)
  case 0
  show ?case by simp
next
  case (Suc k)
  then have k: "k < length titles" and IH:
    "files (snd (run_loop ia out delay n s (take k (py_enumerate 1 titles)) (rs, w)))
       (get_progress_file out) =
     (if 10 \<le> 10 * (int k div 10) \<and> s \<le> 10 * (int k div 10)
      then Some (py_str (10 * (int k div 10))) else files w (get_progress_file out))"
    by simp_all
  let ?st = "run_loop ia out delay n s (take k (py_enumerate 1 titles)) (rs, w)"
  obtain rs1 w1 where st: "?st = (rs1, w1)" by (cases ?st)
  define P where "P = int k + 1"
  have P1: "1 + int k = P" "int (Suc k) = P" by (simp_all add: P_def)
  have step: "run_loop ia out delay n s (take (Suc k) (py_enumerate 1 titles)) (rs, w) =
          (if P < s then (rs1, w1)
           else process_item ia out delay n (P, titles ! k) (rs1, w1))"
    using st by (simp add: take_Suc_py_enumerate[OF k] run_loop_append P1)
  have IH': "files w1 (get_progress_file out) =
     (if 10 \<le> 10 * (int k div 10) \<and> s \<le> 10 * (int k div 10)
      then Some (py_str (10 * (int k div 10))) else files w (get_progress_file out))"
    using IH st by simp
  have le: "10 * (int k div 10) < P" "10 * (P div 10) \<le> P"
    using ten_div_le[of "int k"] ten_div_le[of P] by (simp_all add: P_def)
  have goal: "files (snd (if P < s then (rs1, w1)
           else process_item ia out delay n (P, titles ! k) (rs1, w1))) (get_progress_file out) =
     (if 10 \<le> 10 * (P div 10) \<and> s \<le> 10 * (P div 10)
      then Some (py_str (10 * (P div 10))) else files w (get_progress_file out))"
  proof (cases "P < s")
    case True
    with le have "\<not> s \<le> 10 * (int k div 10)" "\<not> s \<le> 10 * (P div 10)" by linarith+
    with True IH' show ?thesis by simp
  next
    case False
    show ?thesis
    proof (cases "P mod 10 = 0")
      case z: True
      then have e: "10 * (P div 10) = P" by (rule ten_div_exact)
      have "10 \<le> P" using z by (rule ten_le_multiple) (simp add: P_def)
      with e False z show ?thesis
        by (simp add: process_item_progress)
    next
      case nz: False
      then have "P div 10 = int k div 10" unfolding P_def by (rule div10_same)
      with False nz IH' show ?thesis
        by (simp add: process_item_progress)
    qed
  qed
  show ?case
    unfolding step P1 by (rule goal)
qed

lemma py_str_10: "py_str 10 = ''10''"
  by code_simp


section \<open>Counting the outcomes\<close>





lemma csv_writes_init_temp_csv [simp]: "csv_writes (init_temp_csv out s w) = csv_writes w"
  by (simp add: init_temp_csv_def)


lemma load_progress_cong:
  "fs (get_progress_file out) = fs' (get_progress_file out) \<Longrightarrow>
   load_progress out fs = load_progress out fs'"
  by (simp add: load_progress_def)


section \<open>Contents that are not an integer\<close>

lemma digits_rest_chars:
  "digits_rest acc s = Some v \<Longrightarrow> \<forall>c \<in> set s. is_digit c \<or> c = CHR ''_''"
  by (induction acc s rule: digits_rest.induct) (auto split: if_splits)

lemma parse_digits_chars:
  "parse_digits s = Some v \<Longrightarrow> \<forall>c \<in> set s. is_digit c \<or> c = CHR ''_''"
  by (cases s) (auto simp: parse_digits_def split: if_splits dest: digits_rest_chars)

lemma py_int_chars:
  assumes "py_int s = Some v"
  shows "\<forall>c \<in> set (py_strip s). is_digit c \<or> c = CHR ''_'' \<or> c = CHR ''+'' \<or> c = CHR ''-''"
proof (cases "py_strip s")
  case Nil
  then show ?thesis by simp
next
  case (Cons c r)
  show ?thesis
  proof (cases "c = CHR ''-'' \<or> c = CHR ''+''")
    case True
    with assms Cons obtain u where "parse_digits r = Some u"
      by (auto simp: py_int_def split: if_splits)
    from parse_digits_chars[OF this] True Cons show ?thesis by auto
  next
    case False
    with assms Cons have "parse_digits (c # r) = Some v"
      by (auto simp: py_int_def)
    from parse_digits_chars[OF this] Cons show ?thesis by auto
  qed
qed

lemma in_dropWhile: "c \<in> set s \<Longrightarrow> \<not> P c \<Longrightarrow> c \<in> set (dropWhile P s)"
  by (induction s) auto

lemma in_py_strip: "c \<in> set s \<Longrightarrow> \<not> is_space c \<Longrightarrow> c \<in> set (py_strip s)"
  unfolding py_strip_def using in_dropWhile[of c "rev (dropWhile is_space s)" is_space]
    in_dropWhile[of c s is_space] by simp

lemma py_int_bad_char:
  assumes "c \<in> set s" "\<not> is_space c" "\<not> is_digit c" "c \<noteq> CHR ''_''" "c \<noteq> CHR ''+''" "c \<noteq> CHR ''-''"
  shows "py_int (py_strip s) = None"
proof (rule ccontr)
  assume "py_int (py_strip s) \<noteq> None"
  then obtain v where "py_int (py_strip s) = Some v" by auto
  from py_int_chars[OF this] in_py_strip[OF in_py_strip[OF assms(1,2)] assms(2)] assms(3-6)
  show False by auto
qed
section \<open>The claims\<close>

text \<open>
  Claim C1. When the operator accepts to resume a run whose progress marker is \<open>M\<close>, the
  run is the loop body applied to the positions above \<open>M\<close> only, in order, starting from
  the world as it was (the prompt apart), and it returns. For \<open>M > 0\<close> these are the
  positions \<open>M+1, M+2, ...\<close> of the titles after the first \<open>M\<close>. Every row of the results
  has a position above \<open>M\<close>, every search made is for the title of a position above \<open>M\<close>,
  and the failure files grow by one record for each failed position above \<open>M\<close> and by
  nothing else.
\<close>

theorem C1_resume_starts_after_marker:
  assumes inp: "files w inp = Some content"
    and marker: "load_progress out (files w) = Some M" and nz: "M \<noteq> 0"
    and temp: "files w (get_temp_csv out) \<noteq> None"
    and answer: "stdin w = line # rest" and yes: "py_lower (py_strip line) = ''y''"
  shows "process_tv_list ia inp out delay w =
           (case foldl (\<lambda>st pt. process_item ia out delay (int (length (read_titles content))) pt st)
                   (\<lparr>results = [], failed_count = 0, success_count = 0\<rparr>,
                    w\<lparr>stdin := rest, trace := trace w @ [Input]\<rparr>)
                   (filter (\<lambda>pt. M + 1 \<le> fst pt) (py_enumerate 1 (read_titles content))) of
              (rs, w3) \<Rightarrow> Inr (rs, w3\<lparr>files := finalize out (results rs) (files w3)\<rparr>)) \<and>
         (0 < M \<longrightarrow>
            filter (\<lambda>pt. M + 1 \<le> fst pt) (py_enumerate 1 (read_titles content)) =
              py_enumerate (M + 1) (drop (nat M) (read_titles content))) \<and>
         (\<exists>rs w' evs fails msgs.
            process_tv_list ia inp out delay w = Inr (rs, w') \<and>
            (\<forall>row \<in> set (results rs). \<exists>p. M < p \<and> map_of row ''Position'' = Some (SInt p)) \<and>
            trace w' = trace w @ Input # evs \<and>
            (\<forall>t. SearchMovie t \<in> set evs \<longrightarrow>
               (\<exists>p. M < p \<and> (p, t) \<in> set (py_enumerate 1 (read_titles content)))) \<and>
            (\<forall>pt \<in> set fails. M < fst pt \<and> pt \<in> set (py_enumerate 1 (read_titles content))) \<and>
            length msgs = length fails \<and>
            read_or_empty (files w') (failed_list_file_of out) =
              read_or_empty (files w) (failed_list_file_of out) @
              concat (map (\<lambda>pt. snd pt @ ''\<newline>'') fails) \<and>
            files w' (failed_file_of out) =
              (if fails = [] then files w (failed_file_of out)
               else Some ((case files w (failed_file_of out) of None \<Rightarrow> failed_header | Some old \<Rightarrow> old) @
                          concat (map (\<lambda>(pt, msg). failure_block (fst pt) (snd pt) msg)
                                    (zip fails msgs)))))"
proof (intro conjI impI)
  let ?w1 = "w\<lparr>stdin := rest, trace := trace w @ [Input]\<rparr>"
  let ?n = "int (length (read_titles content))"
  let ?items = "filter (\<lambda>pt. M + 1 \<le> fst pt) (py_enumerate 1 (read_titles content))"
  let ?init = "\<lparr>results = [], failed_count = 0, success_count = 0\<rparr>"
  let ?run = "foldl (\<lambda>st pt. process_item ia out delay ?n pt st) (?init, ?w1) ?items"
  have c: "check_resume out w = Inr (M + 1, ?w1)"
    using marker nz temp answer yes by (rule check_resume_resume)
  have ne: "M + 1 \<noteq> 1" using nz by simp
  show eq: "process_tv_list ia inp out delay w =
           (case ?run of
              (rs, w3) \<Rightarrow> Inr (rs, w3\<lparr>files := finalize out (results rs) (files w3)\<rparr>))"
    using process_tv_list_unfold[OF inp c, of ia delay] ne by simp
  show "?items = py_enumerate (M + 1) (drop (nat M) (read_titles content))" if "0 < M"
    using filter_py_enumerate[of 1 "M + 1" "read_titles content"] that by simp
  obtain rs w3 where run: "?run = (rs, w3)" by (cases ?run)
  let ?w' = "w3\<lparr>files := finalize out (results rs) (files w3)\<rparr>"
  have res: "process_tv_list ia inp out delay w = Inr (rs, ?w')"
    using eq run by simp
  from foldl_process_item_records[of ?items ia out delay ?n ?init ?w1] run
  obtain outs where
    r: "results rs = concat (map rows_of outs)" and
    p: "map (\<lambda>row. map_of row ''Position'') (concat (map rows_of outs)) =
          map (\<lambda>pt. Some (SInt (fst pt)))
            (map fst (filter (\<lambda>x. has_row (snd x)) (zip ?items outs)))" and
    fl: "read_or_empty (files w3) (failed_list_file_of out) =
           read_or_empty (files ?w1) (failed_list_file_of out) @
           concat (map (\<lambda>pt. snd pt @ ''\<newline>'')
                     (map fst (filter (\<lambda>x. \<not> succeeded (snd x)) (zip ?items outs))))" and
    lg: "files w3 (failed_file_of out) =
       (if filter (\<lambda>x. \<not> succeeded (snd x)) (zip ?items outs) = []
        then files ?w1 (failed_file_of out)
        else Some ((case files ?w1 (failed_file_of out) of None \<Rightarrow> failed_header | Some old \<Rightarrow> old) @
                   concat (map (\<lambda>(pt, msg). failure_block (fst pt) (snd pt) msg)
                             (zip (map fst (filter (\<lambda>x. \<not> succeeded (snd x)) (zip ?items outs)))
                                  (map (\<lambda>x. message_of (snd x))
                                     (filter (\<lambda>x. \<not> succeeded (snd x)) (zip ?items outs)))))))"
    by auto
  let ?fails = "map fst (filter (\<lambda>x. \<not> succeeded (snd x)) (zip ?items outs))"
  define msgs where
    "msgs = map (\<lambda>x. message_of (snd x)) (filter (\<lambda>x. \<not> succeeded (snd x)) (zip ?items outs))"
  have lm: "length msgs = length ?fails" by (simp add: msgs_def)
  from foldl_process_item_trace[of ia out delay ?n ?init ?w1 ?items] run
  obtain evs where tr: "trace w3 = trace ?w1 @ evs"
    and ev: "\<forall>t'. SearchMovie t' \<in> set evs \<longrightarrow> t' \<in> snd ` set ?items" by auto
  have rows: "\<forall>row \<in> set (results rs). \<exists>p. M < p \<and> map_of row ''Position'' = Some (SInt p)"
  proof
    fix row assume "row \<in> set (results rs)"
    then have "row \<in> set (concat (map rows_of outs))"
      using r by simp
    then have "map_of row ''Position'' \<in>
        set (map (\<lambda>row. map_of row ''Position'') (concat (map rows_of outs)))"
      by (simp only: set_map) (rule imageI)
    with p have "map_of row ''Position'' \<in>
        (\<lambda>pt. Some (SInt (fst pt))) `
          set (map fst (filter (\<lambda>x. has_row (snd x)) (zip ?items outs)))"
      by (simp only: set_map)
    then obtain pt where
      pt: "pt \<in> set (map fst (filter (\<lambda>x. has_row (snd x)) (zip ?items outs)))"
      "map_of row ''Position'' = Some (SInt (fst pt))" by blast
    with set_zip_filter_fst[of "\<lambda>x. has_row (snd x)" ?items outs] have "pt \<in> set ?items" by blast
    then have "M < fst pt" by simp
    with pt show "\<exists>p. M < p \<and> map_of row ''Position'' = Some (SInt p)" by blast
  qed
  have evs: "\<forall>t. SearchMovie t \<in> set evs \<longrightarrow>
               (\<exists>p. M < p \<and> (p, t) \<in> set (py_enumerate 1 (read_titles content)))"
  proof (intro allI impI)
    fix t assume "SearchMovie t \<in> set evs"
    with ev obtain pt where "pt \<in> set ?items" "t = snd pt" by auto
    then have "M < fst pt \<and> (fst pt, t) \<in> set (py_enumerate 1 (read_titles content))" by simp
    then show "\<exists>p. M < p \<and> (p, t) \<in> set (py_enumerate 1 (read_titles content))" by blast
  qed
  have fails: "\<forall>pt \<in> set ?fails. M < fst pt \<and> pt \<in> set (py_enumerate 1 (read_titles content))"
  proof
    fix pt assume "pt \<in> set ?fails"
    with set_zip_filter_fst[of "\<lambda>x. \<not> succeeded (snd x)" ?items outs]
    have "pt \<in> set ?items" by blast
    then show "M < fst pt \<and> pt \<in> set (py_enumerate 1 (read_titles content))" by simp
  qed
  have fl': "read_or_empty (files ?w') (failed_list_file_of out) =
              read_or_empty (files w) (failed_list_file_of out) @
              concat (map (\<lambda>pt. snd pt @ ''\<newline>'') ?fails)"
    using fl by (simp add: read_or_empty_def finalize_files(4) output_distinct paths_distinct)
  have lg': "files ?w' (failed_file_of out) =
              (if ?fails = [] then files w (failed_file_of out)
               else Some ((case files w (failed_file_of out) of None \<Rightarrow> failed_header | Some old \<Rightarrow> old) @
                          concat (map (\<lambda>(pt, msg). failure_block (fst pt) (snd pt) msg)
                                    (zip ?fails msgs))))"
    using lg by (simp add: msgs_def finalize_files(4) output_distinct paths_distinct)
  have lm': "length msgs = length ?fails" using lm by simp
  have tr': "trace ?w' = trace w @ Input # evs" using tr by simp
  show "\<exists>rs w' evs fails msgs.
            process_tv_list ia inp out delay w = Inr (rs, w') \<and>
            (\<forall>row \<in> set (results rs). \<exists>p. M < p \<and> map_of row ''Position'' = Some (SInt p)) \<and>
            trace w' = trace w @ Input # evs \<and>
            (\<forall>t. SearchMovie t \<in> set evs \<longrightarrow>
               (\<exists>p. M < p \<and> (p, t) \<in> set (py_enumerate 1 (read_titles content)))) \<and>
            (\<forall>pt \<in> set fails. M < fst pt \<and> pt \<in> set (py_enumerate 1 (read_titles content))) \<and>
            length msgs = length fails \<and>
            read_or_empty (files w') (failed_list_file_of out) =
              read_or_empty (files w) (failed_list_file_of out) @
              concat (map (\<lambda>pt. snd pt @ ''\<newline>'') fails) \<and>
            files w' (failed_file_of out) =
              (if fails = [] then files w (failed_file_of out)
               else Some ((case files w (failed_file_of out) of None \<Rightarrow> failed_header | Some old \<Rightarrow> old) @
                          concat (map (\<lambda>(pt, msg). failure_block (fst pt) (snd pt) msg)
                                    (zip fails msgs))))"
    apply (rule exI[of _ rs], rule exI[of _ ?w'], rule exI[of _ evs], rule exI[of _ ?fails],
           rule exI[of _ msgs])
    using res rows tr' evs fails lm' fl' lg' apply (intro conjI)
           apply assumption+
    done
qed

theorem C1_witness:
  "filter (\<lambda>pt. 10 + 1 \<le> fst pt) (py_enumerate 1 (read_titles resumed_input)) =
     py_enumerate (10 + 1) (drop (nat 10) (read_titles resumed_input)) \<and>
   (\<exists>rs w' evs fails msgs.
      process_tv_list scripted ''in.txt'' ''out.csv'' 0 resumed_world = Inr (rs, w') \<and>
      (\<forall>row \<in> set (results rs). \<exists>p. 10 < p \<and> map_of row ''Position'' = Some (SInt p)) \<and>
      trace w' = trace resumed_world @ Input # evs \<and>
      (\<forall>t. SearchMovie t \<in> set evs \<longrightarrow>
         (\<exists>p. 10 < p \<and> (p, t) \<in> set (py_enumerate 1 (read_titles resumed_input)))) \<and>
      (\<forall>pt \<in> set fails. 10 < fst pt \<and> pt \<in> set (py_enumerate 1 (read_titles resumed_input))) \<and>
      length msgs = length fails \<and>
      read_or_empty (files w') (failed_list_file_of ''out.csv'') =
        read_or_empty (files resumed_world) (failed_list_file_of ''out.csv'') @
        concat (map (\<lambda>pt. snd pt @ ''\<newline>'') fails) \<and>
      files w' (failed_file_of ''out.csv'') =
        (if fails = [] then files resumed_world (failed_file_of ''out.csv'')
         else Some ((case files resumed_world (failed_file_of ''out.csv'') of
                       None \<Rightarrow> failed_header | Some old \<Rightarrow> old) @
                    concat (map (\<lambda>(pt, msg). failure_block (fst pt) (snd pt) msg)
                              (zip fails msgs))))) \<and>
   py_enumerate (10 + 1) (drop (nat 10) (read_titles resumed_input)) =
     [(11, ''Show A''), (12, ''Show B'')] \<and>
   map_sum id (\<lambda>(rs, w'). (trace w', files w' ''out_failed_list.txt''))
     (process_tv_list scripted ''in.txt'' ''out.csv'' 0 resumed_world) =
     Inr ([Input, SearchMovie ''Show A'', Update bad_entry, Update film_x, Update series_a,
           SearchMovie ''Show B''], Some ''Show B\<newline>'')"
proof -
  have h: "files resumed_world ''in.txt'' = Some resumed_input"
    "load_progress ''out.csv'' (files resumed_world) = Some 10" "(10::int) \<noteq> 0"
    "files resumed_world (get_temp_csv ''out.csv'') \<noteq> None"
    "stdin resumed_world = '' Y '' # []" "py_lower (py_strip '' Y '') = ''y''"
    by (simp_all add: resumed_world_def resumed_input_def model_defs)
  have e: "py_enumerate (10 + 1) (drop (nat 10) (read_titles resumed_input)) =
     [(11, ''Show A''), (12, ''Show B'')]"
    by (simp add: resumed_input_def read_titles_def py_strip_def is_space_def)
  have r: "map_sum id (\<lambda>(rs, w'). (trace w', files w' ''out_failed_list.txt''))
     (process_tv_list scripted ''in.txt'' ''out.csv'' 0 resumed_world) =
     Inr ([Input, SearchMovie ''Show A'', Update bad_entry, Update film_x, Update series_a,
           SearchMovie ''Show B''], Some ''Show B\<newline>'')"
    by (simp add: resumed_world_def model_defs)
  note c1 = C1_resume_starts_after_marker[OF h, of scripted 0]
  have pos: "(0::int) < 10" by simp
  from c1[THEN conjunct2, THEN conjunct1, rule_format, OF pos]
    c1[THEN conjunct2, THEN conjunct2] e r
  show ?thesis by (intro conjI)
qed

text \<open>
  Claim C2. Right after the loop has passed a processed position \<open>P\<close> that is a multiple of
  10, the progress file holds exactly the decimal text of \<open>P\<close>, and reading it back gives
  \<open>P\<close>. Once the run has written the marker, the marker read after position \<open>P\<close> is the
  last multiple of 10 up to \<open>P\<close>. So the marker never goes down during the loop: when the
  marker found at the start of the loop, if there is one, is below the start position (as
  it is after a resume, after a restart and with no marker), the marker read after a
  position is at most the marker read after any later position.
\<close>

theorem C2_marker_after_every_tenth_position:
  assumes "P \<le> Q" and "Q \<le> length titles"
  shows "(0 < P \<and> s \<le> int P \<and> int P mod 10 = 0 \<longrightarrow>
            files (snd (run_loop ia out delay n s (take P (py_enumerate 1 titles)) (rs, w)))
                (get_progress_file out) = Some (py_str (int P)) \<and>
            load_progress out
                (files (snd (run_loop ia out delay n s (take P (py_enumerate 1 titles)) (rs, w)))) =
              Some (int P)) \<and>
         (10 \<le> 10 * (int P div 10) \<and> s \<le> 10 * (int P div 10) \<longrightarrow>
            load_progress out
                (files (snd (run_loop ia out delay n s (take P (py_enumerate 1 titles)) (rs, w)))) =
              Some (10 * (int P div 10)) \<and>
            load_progress out
                (files (snd (run_loop ia out delay n s (take Q (py_enumerate 1 titles)) (rs, w)))) =
              Some (10 * (int Q div 10)) \<and>
            10 * (int P div 10) \<le> 10 * (int Q div 10)) \<and>
         ((\<forall>m. load_progress out (files w) = Some m \<longrightarrow> m < s) \<longrightarrow>
            (\<forall>a. load_progress out
                    (files (snd (run_loop ia out delay n s (take P (py_enumerate 1 titles)) (rs, w)))) =
                  Some a \<longrightarrow>
               (\<exists>b. load_progress out
                       (files (snd (run_loop ia out delay n s (take Q (py_enumerate 1 titles)) (rs, w)))) =
                     Some b \<and> a \<le> b)))"
proof (intro conjI impI allI)
  let ?fP = "files (snd (run_loop ia out delay n s (take P (py_enumerate 1 titles)) (rs, w)))"
  let ?fQ = "files (snd (run_loop ia out delay n s (take Q (py_enumerate 1 titles)) (rs, w)))"
  let ?cP = "10 \<le> 10 * (int P div 10) \<and> s \<le> 10 * (int P div 10)"
  let ?cQ = "10 \<le> 10 * (int Q div 10) \<and> s \<le> 10 * (int Q div 10)"
  have P: "P \<le> length titles" using assms by simp
  note mP = marker_after_prefix[OF P, of ia out delay n s rs w]
  note mQ = marker_after_prefix[OF assms(2), of ia out delay n s rs w]
  have mono: "10 * (int P div 10) \<le> 10 * (int Q div 10)"
    using assms(1) by (simp add: zdiv_mono1)
  have lP: "load_progress out ?fP = Some (10 * (int P div 10))" if ?cP
  proof -
    from that mP have "?fP (get_progress_file out) = Some (py_str (10 * (int P div 10)))" by simp
    with that show ?thesis by (intro load_progress_saved) simp_all
  qed
  have lQ: "load_progress out ?fQ = Some (10 * (int Q div 10))" if ?cQ
  proof -
    from that mQ have "?fQ (get_progress_file out) = Some (py_str (10 * (int Q div 10)))" by simp
    with that show ?thesis by (intro load_progress_saved) simp_all
  qed
  have nP: "load_progress out ?fP = load_progress out (files w)" if "\<not> ?cP"
  proof (rule load_progress_cong)
    show "?fP (get_progress_file out) = files w (get_progress_file out)"
      using mP that by (simp only: if_not_P if_False)
  qed
  have nQ: "load_progress out ?fQ = load_progress out (files w)" if "\<not> ?cQ"
  proof (rule load_progress_cong)
    show "?fQ (get_progress_file out) = files w (get_progress_file out)"
      using mQ that by (simp only: if_not_P if_False)
  qed
  {
    assume a: "0 < P \<and> s \<le> int P \<and> int P mod 10 = 0"
    then have e: "10 * (int P div 10) = int P" by (intro ten_div_exact) simp
    from a have "10 \<le> int P" by (intro ten_le_multiple) simp_all
    with a e mP show f: "?fP (get_progress_file out) = Some (py_str (int P))" by simp
    show "load_progress out ?fP = Some (int P)"
      using f by (intro load_progress_saved) simp_all
  }
  {
    assume b: ?cP
    then show "load_progress out ?fP = Some (10 * (int P div 10))" by (rule lP)
    from b mono have ?cQ by linarith
    then show "load_progress out ?fQ = Some (10 * (int Q div 10))" by (rule lQ)
    show "10 * (int P div 10) \<le> 10 * (int Q div 10)" by (rule mono)
  }
  {
    fix a
    assume below: "\<forall>m. load_progress out (files w) = Some m \<longrightarrow> m < s"
      and a: "load_progress out ?fP = Some a"
    show "\<exists>b. load_progress out ?fQ = Some b \<and> a \<le> b"
    proof (cases ?cP)
      case True
      with mono have cq: ?cQ by linarith
      from lP[OF True] a have "a = 10 * (int P div 10)" by simp
      with lQ[OF cq] mono show ?thesis by simp
    next
      case False
      with nP a have w: "load_progress out (files w) = Some a" by simp
      with below have as: "a < s" by simp
      show ?thesis
      proof (cases ?cQ)
        case True
        with lQ as show ?thesis by (intro exI[of _ "10 * (int Q div 10)"]) simp
      next
        case False
        with nQ w show ?thesis by simp
      qed
    qed
  }
qed

theorem C2_witness:
  "files (snd (run_loop scripted ''out.csv'' 0 12 1
                 (take 10 (py_enumerate 1 (read_titles resumed_input)))
                 (\<lparr>results = [], failed_count = 0, success_count = 0\<rparr>, fresh_world)))
       ''out_progress.txt'' = Some ''10'' \<and>
   load_progress ''out.csv''
     (files (snd (run_loop scripted ''out.csv'' 0 12 1
                    (take 10 (py_enumerate 1 (read_titles resumed_input)))
                    (\<lparr>results = [], failed_count = 0, success_count = 0\<rparr>, fresh_world)))) =
     Some 10 \<and>
   load_progress ''out.csv''
     (files (snd (run_loop scripted ''out.csv'' 0 12 1
                    (take 12 (py_enumerate 1 (read_titles resumed_input)))
                    (\<lparr>results = [], failed_count = 0, success_count = 0\<rparr>, fresh_world)))) =
     Some 10 \<and>
   load_progress ''out.csv''
     (files (snd (run_loop scripted ''out.csv'' 0 12 11
                    (take 0 (py_enumerate 1 (read_titles resumed_input)))
                    (\<lparr>results = [], failed_count = 0, success_count = 0\<rparr>, asked_world)))) =
     Some 10 \<and>
   (\<exists>b. load_progress ''out.csv''
     (files (snd (run_loop scripted ''out.csv'' 0 12 11
                    (take 12 (py_enumerate 1 (read_titles resumed_input)))
                    (\<lparr>results = [], failed_count = 0, success_count = 0\<rparr>, asked_world)))) =
     Some b \<and> 10 \<le> b)"
proof -
  have h: "(10::nat) \<le> 12" "12 \<le> length (read_titles resumed_input)"
    and h0: "(0::nat) \<le> 12"
    by (simp_all add: resumed_input_def read_titles_def py_strip_def is_space_def)
  have a: "0 < (10::nat) \<and> 1 \<le> int 10 \<and> int 10 mod 10 = 0"
    and b: "10 \<le> 10 * (int 10 div 10) \<and> 1 \<le> 10 * (int 10 div 10)" by simp_all
  have v: "10 * (int 12 div 10) = 10" "int 10 = 10" by simp_all
  have m: "load_progress ''out.csv'' (files asked_world) = Some 10"
    by (simp add: asked_world_def resumed_world_def load_progress_def out_paths py_int_def
          py_strip_def is_space_def parse_digits_def is_digit_def digit_val_def)
  then have below: "\<And>m. load_progress ''out.csv'' (files asked_world) = Some m \<Longrightarrow> m < 11"
    by simp
  have start: "load_progress ''out.csv''
     (files (snd (run_loop scripted ''out.csv'' 0 12 11
                    (take 0 (py_enumerate 1 (read_titles resumed_input)))
                    (\<lparr>results = [], failed_count = 0, success_count = 0\<rparr>, asked_world)))) =
     Some 10"
    using m by simp
  note c2 = C2_marker_after_every_tenth_position[OF h, of 1 scripted "''out.csv''" 0 12
      "\<lparr>results = [], failed_count = 0, success_count = 0\<rparr>" fresh_world]
  note c3 = C2_marker_after_every_tenth_position[OF h0 h(2), of 11 scripted "''out.csv''" 0 12
      "\<lparr>results = [], failed_count = 0, success_count = 0\<rparr>" asked_world,
      THEN conjunct2, THEN conjunct2, rule_format, OF below start]
  from c2[THEN conjunct1, rule_format, OF a] c2[THEN conjunct2, THEN conjunct1, rule_format, OF b]
    start c3
  show ?thesis
    unfolding v py_str_10 out_paths by (intro conjI) (elim conjE, assumption)+
qed










text \<open>
  Claim C7. At the end of a run the output file is written as the header followed by the rows
  collected in memory during this run (the results), in the order of their positions, and
  the temporary CSV and the progress marker are then removed. The temporary CSV is never
  read back: whatever it held at startup, the run and its output are the same. So after a
  resumed run every row of the output has a position above the marker, and the rows that an
  earlier run had stored in the temporary CSV are not in the output.
\<close>

theorem C7_final_output_from_memory:
  assumes "process_tv_list ia inp out delay w = Inr (rs, w')"
  shows "files w' out =
           Some (csv_line fieldnames @ concat (map (\<lambda>row. csv_line (dict_to_list row)) (results rs))) \<and>
         files w' (get_temp_csv out) = None \<and>
         files w' (get_progress_file out) = None \<and>
         (\<exists>s w1 ps. check_resume out w = Inr (s, w1) \<and>
            map (\<lambda>row. map_of row ''Position'') (results rs) = map (\<lambda>p. Some (SInt p)) ps \<and>
            sorted_wrt (<) ps \<and> (\<forall>p \<in> set ps. s \<le> p)) \<and>
         (\<forall>x. files w (get_temp_csv out) \<noteq> None \<and> inp \<noteq> get_temp_csv out \<longrightarrow>
            process_tv_list ia inp out delay (w\<lparr>files := (files w)(get_temp_csv out \<mapsto> x)\<rparr>) =
              Inr (rs, w')) \<and>
         (\<forall>M line rest.
            load_progress out (files w) = Some M \<and> M \<noteq> 0 \<and> files w (get_temp_csv out) \<noteq> None \<and>
            stdin w = line # rest \<and> py_lower (py_strip line) = ''y'' \<longrightarrow>
            (\<forall>row \<in> set (results rs). \<exists>p. M < p \<and> map_of row ''Position'' = Some (SInt p)))"
proof (intro conjI allI impI)
  from assms obtain content s w1 w3 where
    w': "w' = w3\<lparr>files := finalize out (results rs) (files w3)\<rparr>"
    by (rule process_tv_list_Inr)
  show "files w' out =
          Some (csv_line fieldnames @ concat (map (\<lambda>row. csv_line (dict_to_list row)) (results rs)))"
    and "files w' (get_temp_csv out) = None" and "files w' (get_progress_file out) = None"
    using w' by (simp_all add: finalize_files)
  show pos: "\<exists>s w1 ps. check_resume out w = Inr (s, w1) \<and>
            map (\<lambda>row. map_of row ''Position'') (results rs) = map (\<lambda>p. Some (SInt p)) ps \<and>
            sorted_wrt (<) ps \<and> (\<forall>p \<in> set ps. s \<le> p)"
    using assms by (rule run_positions)
  show "process_tv_list ia inp out delay (w\<lparr>files := (files w)(get_temp_csv out \<mapsto> x)\<rparr>) =
          Inr (rs, w')"
    if "files w (get_temp_csv out) \<noteq> None \<and> inp \<noteq> get_temp_csv out" for x
    using that assms process_tv_list_temp_content[of w out inp ia delay x] by simp
  show "\<forall>row \<in> set (results rs). \<exists>p. M < p \<and> map_of row ''Position'' = Some (SInt p)"
    if h: "load_progress out (files w) = Some M \<and> M \<noteq> 0 \<and> files w (get_temp_csv out) \<noteq> None \<and>
           stdin w = line # rest \<and> py_lower (py_strip line) = ''y''" for M line rest
  proof
    fix row assume row: "row \<in> set (results rs)"
    have c: "check_resume out w = Inr (M + 1, w\<lparr>stdin := rest, trace := trace w @ [Input]\<rparr>)"
      by (rule check_resume_resume) (use h in auto)
    from pos c obtain ps where
      m: "map (\<lambda>row. map_of row ''Position'') (results rs) = map (\<lambda>p. Some (SInt p)) ps"
      and ge: "\<forall>p \<in> set ps. M + 1 \<le> p" by auto
    from row have "map_of row ''Position'' \<in> set (map (\<lambda>row. map_of row ''Position'') (results rs))"
      by simp
    with m obtain p where "p \<in> set ps" "map_of row ''Position'' = Some (SInt p)" by auto
    with ge show "\<exists>p. M < p \<and> map_of row ''Position'' = Some (SInt p)" by force
  qed
qed

theorem C7_witness:
  "\<exists>rs w'. process_tv_list scripted ''in.txt'' ''out.csv'' 0 resumed_world = Inr (rs, w') \<and>
     map (\<lambda>row. map_of row ''Position'') (results rs) = [Some (SInt 11)] \<and>
     files w' ''out.csv'' =
       Some (csv_line fieldnames @ concat (map (\<lambda>row. csv_line (dict_to_list row)) (results rs))) \<and>
     files w' ''out_temp.csv'' = None \<and> files w' ''out_progress.txt'' = None \<and>
     process_tv_list scripted ''in.txt'' ''out.csv'' 0
       (resumed_world\<lparr>files := (files resumed_world)(''out_temp.csv'' \<mapsto> ''other rows'')\<rparr>) =
       Inr (rs, w') \<and>
     (\<forall>row \<in> set (results rs). \<exists>p. 10 < p \<and> map_of row ''Position'' = Some (SInt p))"
proof -
  have "\<exists>rs w'. process_tv_list scripted ''in.txt'' ''out.csv'' 0 resumed_world = Inr (rs, w') \<and>
          map (\<lambda>row. map_of row ''Position'') (results rs) = [Some (SInt 11)]"
    by (simp add: resumed_world_def model_defs)
  then obtain rs w' where
    run: "process_tv_list scripted ''in.txt'' ''out.csv'' 0 resumed_world = Inr (rs, w')" and
    pos: "map (\<lambda>row. map_of row ''Position'') (results rs) = [Some (SInt 11)]"
    by (elim exE conjE)
  have h1: "files resumed_world (get_temp_csv ''out.csv'') \<noteq> None \<and>
           ''in.txt'' \<noteq> get_temp_csv ''out.csv''"
    by (simp add: resumed_world_def out_paths)
  have h2: "load_progress ''out.csv'' (files resumed_world) = Some 10 \<and> (10::int) \<noteq> 0 \<and>
     files resumed_world (get_temp_csv ''out.csv'') \<noteq> None \<and>
     stdin resumed_world = '' Y '' # [] \<and> py_lower (py_strip '' Y '') = ''y''"
    by (simp add: resumed_world_def model_defs)
  note c7 = C7_final_output_from_memory[OF run]
  from c7 have a: "files w' (get_temp_csv ''out.csv'') = None"
    "files w' (get_progress_file ''out.csv'') = None"
    "files w' ''out.csv'' =
       Some (csv_line fieldnames @ concat (map (\<lambda>row. csv_line (dict_to_list row)) (results rs)))"
    by simp_all
  from c7 h1 have b: "process_tv_list scripted ''in.txt'' ''out.csv'' 0
       (resumed_world\<lparr>files := (files resumed_world)(get_temp_csv ''out.csv'' \<mapsto> ''other rows'')\<rparr>) =
       Inr (rs, w')" by simp
  from c7 have "\<forall>M line rest.
            load_progress ''out.csv'' (files resumed_world) = Some M \<and> M \<noteq> 0 \<and>
            files resumed_world (get_temp_csv ''out.csv'') \<noteq> None \<and>
            stdin resumed_world = line # rest \<and> py_lower (py_strip line) = ''y'' \<longrightarrow>
            (\<forall>row \<in> set (results rs). \<exists>p. M < p \<and> map_of row ''Position'' = Some (SInt p))"
    by simp
  from this[rule_format, OF h2]
  have c: "\<forall>row \<in> set (results rs). \<exists>p. 10 < p \<and> map_of row ''Position'' = Some (SInt p)"
    by (rule ballI)
  from run pos a b c show ?thesis
    unfolding out_paths by (intro exI[of _ rs] exI[of _ w'] conjI)
qed

text \<open>
  Claim C8. When the progress marker and the temporary CSV both exist at startup and the
  operator does not answer \<open>y\<close>, both files are removed before anything else happens, the
  two failure files keep their content, also after the temporary CSV has been set up again,
  and the loop then runs over every position from 1.
\<close>

theorem C8_restart_deletes_checkpoint_keeps_failure_sinks:
  assumes "load_progress out (files w) = Some M" and "M \<noteq> 0"
    and "files w (get_temp_csv out) \<noteq> None"
    and "stdin w = line # rest" and "py_lower (py_strip line) \<noteq> ''y''"
  shows "let w1 = w\<lparr>stdin := rest, trace := trace w @ [Input],
                     files := ((files w)(get_temp_csv out := None))(get_progress_file out := None)\<rparr>
         in check_resume out w = Inr (1, w1) \<and>
            files w1 (get_temp_csv out) = None \<and>
            files w1 (get_progress_file out) = None \<and>
            files w1 (failed_file_of out) = files w (failed_file_of out) \<and>
            files w1 (failed_list_file_of out) = files w (failed_list_file_of out) \<and>
            files (init_temp_csv out 1 w1) (failed_file_of out) = files w (failed_file_of out) \<and>
            files (init_temp_csv out 1 w1) (failed_list_file_of out) =
              files w (failed_list_file_of out) \<and>
            (\<forall>content. files w inp = Some content \<longrightarrow>
               process_tv_list ia inp out delay w =
                 (case foldl (\<lambda>st pt. process_item ia out delay
                                         (int (length (read_titles content))) pt st)
                         (\<lparr>results = [], failed_count = 0, success_count = 0\<rparr>,
                          init_temp_csv out 1 w1)
                         (py_enumerate 1 (read_titles content)) of
                    (rs, w3) \<Rightarrow> Inr (rs, w3\<lparr>files := finalize out (results rs) (files w3)\<rparr>)))"
proof -
  let ?w1 = "w\<lparr>stdin := rest, trace := trace w @ [Input],
                files := ((files w)(get_temp_csv out := None))(get_progress_file out := None)\<rparr>"
  have c: "check_resume out w = Inr (1, ?w1)"
    using assms by (rule check_resume_restart)
  have run: "process_tv_list ia inp out delay w =
                 (case foldl (\<lambda>st pt. process_item ia out delay
                                         (int (length (read_titles content))) pt st)
                         (\<lparr>results = [], failed_count = 0, success_count = 0\<rparr>,
                          init_temp_csv out 1 ?w1)
                         (py_enumerate 1 (read_titles content)) of
                    (rs, w3) \<Rightarrow> Inr (rs, w3\<lparr>files := finalize out (results rs) (files w3)\<rparr>))"
    if "files w inp = Some content" for content
    using process_tv_list_unfold[OF that c, of ia delay]
    by (simp add: filter_py_enumerate_all)
  show ?thesis
    unfolding Let_def
    using c run
    by (simp add: paths_distinct init_temp_csv_def append_to_csv_other)
qed

theorem C8_witness:
  "check_resume ''out.csv'' restart_world =
     Inr (1, restart_world\<lparr>stdin := [], trace := [Input],
               files := [''in.txt'' \<mapsto> ''Show A\<newline>Show B\<newline>'',
                         ''out_failed.txt'' \<mapsto> ''old log'',
                         ''out_failed_list.txt'' \<mapsto> ''Old Show\<newline>'']\<rparr>)"
proof -
  have h: "load_progress ''out.csv'' (files restart_world) = Some 10" "(10::int) \<noteq> 0"
    "files restart_world (get_temp_csv ''out.csv'') \<noteq> None"
    "stdin restart_world = ''n'' # []" "py_lower (py_strip ''n'') \<noteq> ''y''"
    by (simp_all add: restart_world_def model_defs)
  have "((files restart_world)(get_temp_csv ''out.csv'' := None))
          (get_progress_file ''out.csv'' := None) =
        [''in.txt'' \<mapsto> ''Show A\<newline>Show B\<newline>'',
         ''out_failed.txt'' \<mapsto> ''old log'',
         ''out_failed_list.txt'' \<mapsto> ''Old Show\<newline>'']"
    by (rule ext) (simp add: restart_world_def out_paths)
  with C8_restart_deletes_checkpoint_keeps_failure_sinks[OF h, of "''in.txt''" scripted 0]
  show ?thesis
    by (simp add: Let_def restart_world_def)
qed

text \<open>
  Claim C9. When neither checkpoint artifact exists at startup, the run starts at position 1
  and a fresh temporary CSV is created before any item is processed. The claim says that
  this file holds the header row only. On the code it holds the header row followed by one
  row of seventeen empty fields: \<open>append_to_csv\<close> writes its row argument in both modes, and
  the empty dict it is given is written as a row of empty strings. The theorem evaluates the
  startup in a world that holds the input file only.
\<close>

theorem C9_fresh_store_has_blank_row:
  "check_resume ''out.csv'' fresh_world = Inr (1, fresh_world) \<and>
   files (init_temp_csv ''out.csv'' 1 fresh_world) (get_temp_csv ''out.csv'') =
     Some (csv_line fieldnames @ '',,,,,,,,,,,,,,,,'' @ [CHR 0x0D, CHR 0x0A]) \<and>
   files (init_temp_csv ''out.csv'' 1 fresh_world) (get_temp_csv ''out.csv'') \<noteq>
     Some (csv_line fieldnames)"
  by (simp add: check_resume_def load_progress_def out_paths fresh_world_def init_temp_csv_def
        append_to_csv_def blank_row)

text \<open>
  Claim C10. Loading the progress marker never fails: an absent marker file and a marker file
  whose content is not an integer both give \<open>None\<close>; such is every content that holds a
  character other than a digit, a sign, an underscore or white space. A stored marker of 0
  is treated as an absent one: the resume check asks nothing, the run starts at position 1,
  and the whole run has the same result as the run in the world without the marker file.
\<close>

theorem C10_load_progress_total:
  "(fs (get_progress_file out) = None \<longrightarrow> load_progress out fs = None) \<and>
   (fs' (get_progress_file out) = Some content \<and> py_int (py_strip content) = None
      \<longrightarrow> load_progress out fs' = None) \<and>
   (fs' (get_progress_file out) = Some content \<and> ch \<in> set content \<and> \<not> is_space ch \<and>
    \<not> is_digit ch \<and> ch \<noteq> CHR ''_'' \<and> ch \<noteq> CHR ''+'' \<and> ch \<noteq> CHR ''-''
      \<longrightarrow> load_progress out fs' = None) \<and>
   (load_progress out (files w) = Some 0 \<longrightarrow>
      check_resume out w = Inr (1, w) \<and>
      check_resume out (w\<lparr>files := (files w)(get_progress_file out := None)\<rparr>) =
        Inr (1, w\<lparr>files := (files w)(get_progress_file out := None)\<rparr>) \<and>
      (inp \<noteq> get_progress_file out \<longrightarrow>
         process_tv_list ia inp out delay w =
         process_tv_list ia inp out delay (w\<lparr>files := (files w)(get_progress_file out := None)\<rparr>)))"
proof (intro conjI impI)
  show "load_progress out fs = None" if "fs (get_progress_file out) = None"
    using that by (simp add: load_progress_def)
  show "load_progress out fs' = None"
    if "fs' (get_progress_file out) = Some content \<and> py_int (py_strip content) = None"
    using that by (simp add: load_progress_def)
  show "load_progress out fs' = None"
    if "fs' (get_progress_file out) = Some content \<and> ch \<in> set content \<and> \<not> is_space ch \<and>
        \<not> is_digit ch \<and> ch \<noteq> CHR ''_'' \<and> ch \<noteq> CHR ''+'' \<and> ch \<noteq> CHR ''-''"
    using that py_int_bad_char[of ch content] by (simp add: load_progress_def)
  show "check_resume out w = Inr (1, w)" if "load_progress out (files w) = Some 0"
    using that by (rule check_resume_zero)
  show "check_resume out (w\<lparr>files := (files w)(get_progress_file out := None)\<rparr>) =
        Inr (1, w\<lparr>files := (files w)(get_progress_file out := None)\<rparr>)"
    by (rule check_resume_absent) simp
  show "process_tv_list ia inp out delay w =
         process_tv_list ia inp out delay (w\<lparr>files := (files w)(get_progress_file out := None)\<rparr>)"
    if "load_progress out (files w) = Some 0" "inp \<noteq> get_progress_file out"
    using process_tv_list_marker_zero[OF that] by simp
qed

theorem C10_witness:
  "load_progress ''out.csv'' (files fresh_world) = None \<and>
   py_int (py_strip ''12a'') = None \<and>
   load_progress ''out.csv'' [''out_progress.txt'' \<mapsto> ''12a''] = None \<and>
   load_progress ''out.csv'' (files zero_marker_world) = Some 0 \<and>
   check_resume ''out.csv'' zero_marker_world = Inr (1, zero_marker_world) \<and>
   process_tv_list scripted ''in.txt'' ''out.csv'' 0 zero_marker_world =
   process_tv_list scripted ''in.txt'' ''out.csv'' 0
     (zero_marker_world\<lparr>files := (files zero_marker_world)(''out_progress.txt'' := None)\<rparr>)"
proof -
  have 1: "files fresh_world (get_progress_file ''out.csv'') = None"
    by (simp add: fresh_world_def out_paths)
  have 2: "[''out_progress.txt'' \<mapsto> ''12a''] (get_progress_file ''out.csv'') = Some ''12a'' \<and>
           CHR ''a'' \<in> set ''12a'' \<and> \<not> is_space CHR ''a'' \<and> \<not> is_digit CHR ''a'' \<and>
           CHR ''a'' \<noteq> CHR ''_'' \<and> CHR ''a'' \<noteq> CHR ''+'' \<and> CHR ''a'' \<noteq> CHR ''-''"
    by (simp add: out_paths is_space_def is_digit_def)
  have 5: "py_int (py_strip ''12a'') = None"
    by (simp add: py_int_def py_strip_def is_space_def parse_digits_def is_digit_def digit_val_def)
  have 3: "load_progress ''out.csv'' (files zero_marker_world) = Some 0"
    by (simp add: load_progress_def zero_marker_world_def out_paths py_int_def py_strip_def
          is_space_def parse_digits_def is_digit_def digit_val_def)
  have 4: "''in.txt'' \<noteq> get_progress_file ''out.csv''" by (simp add: out_paths)
  note c10 = C10_load_progress_total[where fs = "files fresh_world" and out = "''out.csv''"
      and fs' = "[''out_progress.txt'' \<mapsto> ''12a'']" and content = "''12a''" and ch = "CHR ''a''"
      and w = zero_marker_world and inp = "''in.txt''" and ia = scripted and delay = 0]
  have a: "load_progress ''out.csv'' (files fresh_world) = None"
    using c10[THEN conjunct1] 1 by simp
  have b: "load_progress ''out.csv'' [''out_progress.txt'' \<mapsto> ''12a''] = None"
    using c10[THEN conjunct2, THEN conjunct2, THEN conjunct1, rule_format, OF 2] .
  have c: "check_resume ''out.csv'' zero_marker_world = Inr (1, zero_marker_world)"
    using c10[THEN conjunct2, THEN conjunct2, THEN conjunct2, rule_format, OF 3, THEN conjunct1] .
  have d: "process_tv_list scripted ''in.txt'' ''out.csv'' 0 zero_marker_world =
     process_tv_list scripted ''in.txt'' ''out.csv'' 0
       (zero_marker_world\<lparr>files := (files zero_marker_world)(''out_progress.txt'' := None)\<rparr>)"
    using c10[THEN conjunct2, THEN conjunct2, THEN conjunct2, rule_format, OF 3,
        THEN conjunct2, THEN conjunct2, rule_format, OF 4]
    by (simp add: out_paths)
  from a 5 b 3 c d show ?thesis by (intro conjI)
qed

end
